theory Spec2Isabelle
  imports Complex_Main "HOL-Library.Word" "HOL-Library.Sublist"
begin

unbundle bit_operations_syntax

section \<open>Data model\<close>

text \<open>
  The types of \<^verbatim>\<open>types/commands.ts\<close> and \<^verbatim>\<open>services/commandExecutor.ts\<close>.
  A JavaScript \<^verbatim>\<open>number\<close> is idealised as a real number (no rounding, no NaN, no
  infinity). \<^verbatim>\<open>params\<close> is a \<^verbatim>\<open>Record<string, any>\<close>; the executor reads its
  \<^verbatim>\<open>distance\<close> entry only and uses it as a number, so the model keeps the numeric
  entries, as an association list.
\<close>

record Position =
  x :: real
  y :: real
  z :: real

record Command =
  command :: string
  params :: "(string \<times> real) list"
  description :: string
  command_id :: string
  timestamp :: string
  order :: "real option"

datatype CommandStatus = pending | executing | completed | failed

record CommandWithStatus = Command +
  status :: CommandStatus
  error :: "string option"
  progress :: "real option"

datatype RobotStatus = idle | busy | error_status

text \<open>
  A thrown JavaScript value: an \<^verbatim>\<open>Error\<close> with its message, a \<^verbatim>\<open>TypeError\<close>
  (a subclass of \<^verbatim>\<open>Error\<close>) with its message, or a value that is no \<^verbatim>\<open>Error\<close>.
\<close>

datatype js_error = Error string | TypeError string | ThrownValue string

text \<open>
  The message of the cancellation error, the UTF-8 bytes of the five Chinese characters
  of the source's literal (\<^verbatim>\<open>throw new Error('...')\<close> in \<^verbatim>\<open>executeCommand\<close>).
\<close>

definition abort_message :: string where
  "abort_message =
     [CHR 0xE6, CHR 0x89, CHR 0xA7, CHR 0xE8, CHR 0xA1, CHR 0x8C, CHR 0xE8, CHR 0xA2, CHR 0xAB,
      CHR 0xE4, CHR 0xB8, CHR 0xAD, CHR 0xE6, CHR 0xAD, CHR 0xA2]"

text \<open>\<^verbatim>\<open>error instanceof Error && error.message === '...'\<close> of \<^verbatim>\<open>executeQueue\<close>.\<close>

fun is_abort_error :: "js_error \<Rightarrow> bool" where
  "is_abort_error (Error m) = (m = abort_message)"
| "is_abort_error (TypeError m) = (m = abort_message)"
| "is_abort_error (ThrownValue v) = False"

text \<open>\<^verbatim>\<open>error.message\<close>, as the store's \<^verbatim>\<open>onCommandError\<close> reads it.\<close>

fun message :: "js_error \<Rightarrow> string option" where
  "message (Error m) = Some m"
| "message (TypeError m) = Some m"
| "message (ThrownValue v) = None"

section \<open>The command executor\<close>

subsection \<open>Target position\<close>

text \<open>
  \<^verbatim>\<open>v || d\<close> on an optional number: the default is taken when the entry is absent
  (\<^verbatim>\<open>undefined\<close>) and also when it is \<^verbatim>\<open>0\<close>, the falsy number.
\<close>

definition js_or :: "real option \<Rightarrow> real \<Rightarrow> real" where
  "js_or v d = (case v of None \<Rightarrow> d | Some n \<Rightarrow> if n = 0 then d else n)"

definition calculateTargetPosition :: "Command \<Rightarrow> Position \<Rightarrow> Position" where
  "calculateTargetPosition cmd currentPos =
     (if command cmd = ''forward'' then
        currentPos\<lparr>z := z currentPos - js_or (map_of (params cmd) ''distance'') 1\<rparr>
      else if command cmd = ''backward'' then
        currentPos\<lparr>z := z currentPos + js_or (map_of (params cmd) ''distance'') 1\<rparr>
      else if command cmd = ''left'' then
        currentPos\<lparr>x := x currentPos - js_or (map_of (params cmd) ''distance'') 1\<rparr>
      else if command cmd = ''right'' then
        currentPos\<lparr>x := x currentPos + js_or (map_of (params cmd) ''distance'') 1\<rparr>
      else if command cmd = ''up'' then
        currentPos\<lparr>y := y currentPos + js_or (map_of (params cmd) ''distance'') 1\<rparr>
      else if command cmd = ''down'' then
        currentPos\<lparr>y := y currentPos - js_or (map_of (params cmd) ''distance'') 1\<rparr>
      else if command cmd = ''turn_left'' \<or> command cmd = ''turn_right'' \<or> command cmd = ''stop'' then
        currentPos
      else currentPos)"

subsection \<open>State, callbacks and the environment\<close>

text \<open>
  What a run can be observed to do: every callback it invokes, with the arguments, and
  every \<^verbatim>\<open>delay\<close> it awaits, in order.
\<close>

datatype event =
    PositionUpdate Position
  | StatusChange RobotStatus
  | ActionChange "string option"
  | CommandStart Command nat
  | CommandComplete Command nat
  | CommandError Command nat js_error
  | Delay real

text \<open>The number of steps is a count: a natural number.\<close>

record ExecutorConfig =
  animationDuration :: real
  animationSteps :: nat

definition DEFAULT_CONFIG :: ExecutorConfig where
  "DEFAULT_CONFIG = \<lparr>animationDuration = 1000, animationSteps = 20\<rparr>"

text \<open>
  The callbacks act on the state \<open>'w\<close> of whoever provides them. A callback either
  returns, with the state it leaves, or throws. The optional ones
  (\<^verbatim>\<open>onStatusChange?\<close>, \<^verbatim>\<open>onActionChange?\<close> and the three lifecycle callbacks of
  \<^verbatim>\<open>executeQueue\<close>) may be absent.
\<close>

record 'w ExecutorCallbacks =
  onPositionUpdate :: "Position \<Rightarrow> 'w \<Rightarrow> js_error + 'w"
  getPosition :: "'w \<Rightarrow> js_error + Position"
  onStatusChange :: "(RobotStatus \<Rightarrow> 'w \<Rightarrow> js_error + 'w) option"
  onActionChange :: "(string option \<Rightarrow> 'w \<Rightarrow> js_error + 'w) option"

record 'w QueueCallbacks =
  onCommandStart :: "(Command \<Rightarrow> nat \<Rightarrow> 'w \<Rightarrow> js_error + 'w) option"
  onCommandComplete :: "(Command \<Rightarrow> nat \<Rightarrow> 'w \<Rightarrow> js_error + 'w) option"
  onCommandError :: "(Command \<Rightarrow> nat \<Rightarrow> js_error \<Rightarrow> 'w \<Rightarrow> js_error + 'w) option"

text \<open>
  The fields of \<^verbatim>\<open>CommandExecutor\<close> and what surrounds a run. \<open>abortController\<close> is
  \<open>None\<close> for \<^verbatim>\<open>null\<close> and \<open>Some a\<close> for a controller whose \<^verbatim>\<open>signal.aborted\<close> is
  \<open>a\<close>; the field is private and the class hands the controller to nobody, so the
  field is the only reference to it. \<open>world\<close> is the callbacks' state, \<open>trace\<close> the
  events so far and \<open>clock\<close> the number of delays awaited so far.
\<close>

record 'w run_state =
  isExecuting :: bool
  abortController :: "bool option"
  world :: 'w
  trace :: "event list"
  clock :: nat

text \<open>
  JavaScript runs one piece of code at a time: other code runs only while the executor
  awaits a timer. The environment says what runs during the \<open>k\<close>-th delay: calls of \<^verbatim>\<open>abort()\<close>
  and changes of the callbacks' state by others.
\<close>

datatype 'w env_action = CallAbort | Change "'w \<Rightarrow> 'w"

type_synonym 'w environment = "nat \<Rightarrow> 'w env_action list"

type_synonym ('w, 'a) outcome = "(js_error + 'a) \<times> 'w run_state"

definition getIsExecuting :: "'w run_state \<Rightarrow> bool" where
  "getIsExecuting s = isExecuting s"

definition abort :: "'w run_state \<Rightarrow> 'w run_state" where
  "abort s =
     (let s1 = (if abortController s \<noteq> None
                then (s\<lparr>abortController := Some True\<rparr>)\<lparr>abortController := None\<rparr>
                else s)
      in s1\<lparr>isExecuting := False\<rparr>)"

fun apply_env :: "'w env_action \<Rightarrow> 'w run_state \<Rightarrow> 'w run_state" where
  "apply_env CallAbort s = abort s"
| "apply_env (Change f) s = s\<lparr>world := f (world s)\<rparr>"

text \<open>\<^verbatim>\<open>await this.delay(ms)\<close>: the run is suspended and the environment acts.\<close>

definition delay :: "'w environment \<Rightarrow> real \<Rightarrow> 'w run_state \<Rightarrow> 'w run_state" where
  "delay env ms s =
     fold apply_env (env (clock s)) (s\<lparr>trace := trace s @ [Delay ms], clock := Suc (clock s)\<rparr>)"

text \<open>Sequencing: a thrown error skips what follows.\<close>

definition and_then :: "('w, 'a) outcome \<Rightarrow> ('a \<Rightarrow> 'w run_state \<Rightarrow> ('w, 'b) outcome) \<Rightarrow> ('w, 'b) outcome" where
  "and_then r f = (case r of (Inl e, s) \<Rightarrow> (Inl e, s) | (Inr v, s) \<Rightarrow> f v s)"

text \<open>Calling a callback, and calling an optional one (\<^verbatim>\<open>f?.(...)\<close>).\<close>

definition invoke :: "event \<Rightarrow> ('w \<Rightarrow> js_error + 'w) \<Rightarrow> 'w run_state \<Rightarrow> ('w, unit) outcome" where
  "invoke ev f s =
     (let s1 = s\<lparr>trace := trace s @ [ev]\<rparr>
      in case f (world s1) of Inl e \<Rightarrow> (Inl e, s1) | Inr w \<Rightarrow> (Inr (), s1\<lparr>world := w\<rparr>))"

definition invoke_opt :: "event \<Rightarrow> ('w \<Rightarrow> js_error + 'w) option \<Rightarrow> 'w run_state \<Rightarrow> ('w, unit) outcome" where
  "invoke_opt ev fo s = (case fo of None \<Rightarrow> (Inr (), s) | Some f \<Rightarrow> invoke ev f s)"

subsection \<open>Executing one command\<close>

text \<open>\<^verbatim>\<open>this.abortController?.signal.aborted\<close>: \<^verbatim>\<open>undefined\<close>, which is falsy, on \<^verbatim>\<open>null\<close>.\<close>

definition signal_aborted_opt :: "'w run_state \<Rightarrow> bool" where
  "signal_aborted_opt s = (case abortController s of None \<Rightarrow> False | Some a \<Rightarrow> a)"

text \<open>The body of the interpolation loop, for the step \<open>i\<close>.\<close>

definition animation_step ::
  "ExecutorConfig \<Rightarrow> 'w ExecutorCallbacks \<Rightarrow> 'w environment \<Rightarrow> Position \<Rightarrow> real \<times> real \<times> real \<Rightarrow>
   nat \<Rightarrow> 'w run_state \<Rightarrow> ('w, unit) outcome" where
  "animation_step cfg cbs env currentPos delta i s =
     (case delta of (deltaX, deltaY, deltaZ) \<Rightarrow>
        if signal_aborted_opt s then (Inl (Error abort_message), s)
        else
          (let stepDuration = animationDuration cfg / real (animationSteps cfg);
               s1 = delay env stepDuration s;
               p = \<lparr>x = x currentPos + deltaX * real i,
                    y = y currentPos + deltaY * real i,
                    z = z currentPos + deltaZ * real i\<rparr>
           in invoke (PositionUpdate p) (onPositionUpdate cbs p) s1))"

text \<open>\<^verbatim>\<open>for (let i = 1; i <= animationSteps; i++)\<close>, from the step \<open>i\<close> on.\<close>

function animation_loop ::
  "ExecutorConfig \<Rightarrow> 'w ExecutorCallbacks \<Rightarrow> 'w environment \<Rightarrow> Position \<Rightarrow> real \<times> real \<times> real \<Rightarrow>
   nat \<Rightarrow> 'w run_state \<Rightarrow> ('w, unit) outcome" where
  "animation_loop cfg cbs env currentPos delta i s =
     (if i \<le> animationSteps cfg then
        (case animation_step cfg cbs env currentPos delta i s of
           (Inl e, s1) \<Rightarrow> (Inl e, s1)
         | (Inr u, s1) \<Rightarrow> animation_loop cfg cbs env currentPos delta (Suc i) s1)
      else (Inr (), s))"
  by pat_completeness auto
termination
  by (relation "measure (\<lambda>(cfg, cbs, env, currentPos, delta, i, s). Suc (animationSteps cfg) - i)") auto

declare animation_loop.simps [simp del]

text \<open>
  \<^verbatim>\<open>executeCommand\<close>. With no step at all the loop does not run and the quotients
  below are not used.
\<close>

definition executeCommand ::
  "ExecutorConfig \<Rightarrow> 'w ExecutorCallbacks \<Rightarrow> 'w environment \<Rightarrow> Command \<Rightarrow> 'w run_state \<Rightarrow>
   ('w, unit) outcome" where
  "executeCommand cfg cbs env cmd s =
     (case getPosition cbs (world s) of
        Inl e \<Rightarrow> (Inl e, s)
      | Inr currentPos \<Rightarrow>
          (let targetPos = calculateTargetPosition cmd currentPos in
           if x currentPos = x targetPos \<and> y currentPos = y targetPos \<and> z currentPos = z targetPos
           then (Inr (), delay env 300 s)
           else
             (let deltaX = (x targetPos - x currentPos) / real (animationSteps cfg);
                  deltaY = (y targetPos - y currentPos) / real (animationSteps cfg);
                  deltaZ = (z targetPos - z currentPos) / real (animationSteps cfg)
              in and_then (animation_loop cfg cbs env currentPos (deltaX, deltaY, deltaZ) 1 s)
                   (\<lambda>u. invoke (PositionUpdate targetPos) (onPositionUpdate cbs targetPos)))))"

subsection \<open>Executing the queue\<close>

datatype control = Continue | Break

text \<open>
  The inner \<^verbatim>\<open>try { await executeCommand; onCommandComplete } catch\<close> of the loop: the
  cancellation error breaks the loop, any other error is reported and the loop goes on.
  An error thrown by \<^verbatim>\<open>onCommandError\<close> itself leaves the \<^verbatim>\<open>catch\<close> block.
\<close>

definition try_command ::
  "ExecutorConfig \<Rightarrow> 'w ExecutorCallbacks \<Rightarrow> 'w QueueCallbacks \<Rightarrow> 'w environment \<Rightarrow> Command \<Rightarrow>
   nat \<Rightarrow> 'w run_state \<Rightarrow> ('w, control) outcome" where
  "try_command cfg cbs lc env cmd i s =
     (case and_then (executeCommand cfg cbs env cmd s)
             (\<lambda>u. invoke_opt (CommandComplete cmd i) (map_option (\<lambda>f. f cmd i) (onCommandComplete lc))) of
        (Inr u, s1) \<Rightarrow> (Inr Continue, s1)
      | (Inl e, s1) \<Rightarrow>
          if is_abort_error e then (Inr Break, s1)
          else and_then
                 (invoke_opt (CommandError cmd i e) (map_option (\<lambda>f. f cmd i e) (onCommandError lc)) s1)
                 (\<lambda>u s2. (Inr Continue, s2)))"

text \<open>
  One turn of \<^verbatim>\<open>for (let i = 0; i < commands.length; i++)\<close>.
  \<^verbatim>\<open>this.abortController.signal.aborted\<close> has no \<^verbatim>\<open>?.\<close>: on \<^verbatim>\<open>null\<close> it throws a
  \<^verbatim>\<open>TypeError\<close> (whose text depends on the engine), outside the inner \<^verbatim>\<open>try\<close>.
\<close>

definition queue_turn ::
  "ExecutorConfig \<Rightarrow> 'w ExecutorCallbacks \<Rightarrow> 'w QueueCallbacks \<Rightarrow> 'w environment \<Rightarrow> Command \<Rightarrow>
   nat \<Rightarrow> 'w run_state \<Rightarrow> ('w, control) outcome" where
  "queue_turn cfg cbs lc env cmd i s =
     (case abortController s of
        None \<Rightarrow> (Inl (TypeError ''Cannot read property signal of null''), s)
      | Some aborted \<Rightarrow>
          if aborted then (Inr Break, s)
          else
            and_then (invoke_opt (CommandStart cmd i) (map_option (\<lambda>f. f cmd i) (onCommandStart lc)) s)
              (\<lambda>u s1. and_then
                 (invoke_opt (ActionChange (Some (description cmd)))
                    (map_option (\<lambda>f. f (Some (description cmd))) (onActionChange cbs)) s1)
                 (\<lambda>u. try_command cfg cbs lc env cmd i)))"

fun queue_loop ::
  "ExecutorConfig \<Rightarrow> 'w ExecutorCallbacks \<Rightarrow> 'w QueueCallbacks \<Rightarrow> 'w environment \<Rightarrow>
   Command list \<Rightarrow> nat \<Rightarrow> 'w run_state \<Rightarrow> ('w, unit) outcome" where
  "queue_loop cfg cbs lc env [] i s = (Inr (), s)"
| "queue_loop cfg cbs lc env (cmd # rest) i s =
     (case queue_turn cfg cbs lc env cmd i s of
        (Inl e, s1) \<Rightarrow> (Inl e, s1)
      | (Inr Break, s1) \<Rightarrow> (Inr (), s1)
      | (Inr Continue, s1) \<Rightarrow> queue_loop cfg cbs lc env rest (Suc i) s1)"

text \<open>
  The outer \<^verbatim>\<open>try\<close> block (the loop, then \<^verbatim>\<open>idle\<close> and no action), its
  \<^verbatim>\<open>catch\<close> (which swallows the error and reports \<^verbatim>\<open>error\<close>) and its
  \<^verbatim>\<open>finally\<close> (which runs on every path, also when the \<^verbatim>\<open>catch\<close> block throws).
\<close>

definition queue_try ::
  "ExecutorConfig \<Rightarrow> 'w ExecutorCallbacks \<Rightarrow> 'w QueueCallbacks \<Rightarrow> 'w environment \<Rightarrow>
   Command list \<Rightarrow> 'w run_state \<Rightarrow> ('w, unit) outcome" where
  "queue_try cfg cbs lc env commands s =
     and_then (queue_loop cfg cbs lc env commands 0 s)
       (\<lambda>u s1. and_then
          (invoke_opt (StatusChange idle) (map_option (\<lambda>f. f idle) (onStatusChange cbs)) s1)
          (\<lambda>u. invoke_opt (ActionChange None) (map_option (\<lambda>f. f None) (onActionChange cbs))))"

definition queue_catch :: "'w ExecutorCallbacks \<Rightarrow> ('w, unit) outcome \<Rightarrow> ('w, unit) outcome" where
  "queue_catch cbs r =
     (case r of
        (Inr u, s) \<Rightarrow> (Inr u, s)
      | (Inl e, s) \<Rightarrow>
          invoke_opt (StatusChange error_status) (map_option (\<lambda>f. f error_status) (onStatusChange cbs)) s)"

definition queue_finally :: "('w, unit) outcome \<Rightarrow> ('w, unit) outcome" where
  "queue_finally r = (case r of (v, s) \<Rightarrow> (v, s\<lparr>isExecuting := False, abortController := None\<rparr>))"

text \<open>
  \<^verbatim>\<open>executeQueue\<close>. The new controller is not aborted. \<^verbatim>\<open>onStatusChange('busy')\<close> is
  called before the \<^verbatim>\<open>try\<close>: an error it throws leaves the method at once.
\<close>

definition executeQueue ::
  "ExecutorConfig \<Rightarrow> 'w ExecutorCallbacks \<Rightarrow> 'w QueueCallbacks \<Rightarrow> 'w environment \<Rightarrow>
   Command list \<Rightarrow> 'w run_state \<Rightarrow> ('w, unit) outcome" where
  "executeQueue cfg cbs lc env commands s =
     (if isExecuting s then (Inr (), s)
      else if length commands = 0 then (Inr (), s)
      else
        and_then
          (invoke_opt (StatusChange busy) (map_option (\<lambda>f. f busy) (onStatusChange cbs))
             (s\<lparr>isExecuting := True, abortController := Some False\<rparr>))
          (\<lambda>u s1. queue_finally (queue_catch cbs (queue_try cfg cbs lc env commands s1))))"

text \<open>The position updates among the events of a trace, in order.\<close>

fun position_updates :: "event list \<Rightarrow> Position list" where
  "position_updates [] = []"
| "position_updates (PositionUpdate p # es) = p # position_updates es"
| "position_updates (e # es) = position_updates es"

section \<open>The command store and the robot store\<close>

text \<open>
  The state of the two zustand stores (\<^verbatim>\<open>useCommandStore\<close>, \<^verbatim>\<open>useRobotStore\<close>) in one
  record; the command store's \<^verbatim>\<open>error\<close> is \<open>store_error\<close> here, since the command
  records have an \<^verbatim>\<open>error\<close> of their own. \<open>timeouts\<close> lists the delays of the timers
  set with \<^verbatim>\<open>setTimeout(() => get().executeCommands(), 100)\<close> that have not fired yet.
\<close>

record app =
  commands :: "CommandWithStatus list"
  currentCommandIndex :: int
  history :: "Command list"
  isProcessing :: bool
  store_error :: "string option"
  isConnected :: bool
  robotStatus :: RobotStatus
  currentAction :: "string option"
  battery :: real
  position :: Position
  timeouts :: "nat list"

definition initial_app :: app where
  "initial_app =
     \<lparr>commands = [], currentCommandIndex = 0, history = [], isProcessing = False,
      store_error = None, isConnected = False, robotStatus = idle, currentAction = None,
      battery = 100, position = \<lparr>x = 0, y = 0, z = 0\<rparr>, timeouts = []\<rparr>"

text \<open>
  \<^verbatim>\<open>xs.slice(start)\<close> of an array or a string: a negative start counts from the end,
  and both ends are clamped.
\<close>

definition js_slice_from :: "int \<Rightarrow> 'a list \<Rightarrow> 'a list" where
  "js_slice_from start xs =
     (let len = int (length xs);
          k = (if start < 0 then max (len + start) 0 else min start len)
      in drop (nat k) xs)"

text \<open>\<^verbatim>\<open>{...command, status: 'pending'}\<close>: no \<^verbatim>\<open>error\<close> and no \<^verbatim>\<open>progress\<close>.\<close>

definition with_pending :: "Command \<Rightarrow> CommandWithStatus" where
  "with_pending cmd = Command.extend cmd \<lparr>status = pending, error = None, progress = None\<rparr>"

definition addCommand :: "Command \<Rightarrow> app \<Rightarrow> app" where
  "addCommand cmd a =
     a\<lparr>commands := commands a @ [with_pending cmd],
       history := js_slice_from (- 100) (history a @ [cmd]),
       timeouts := timeouts a @ [100]\<rparr>"

definition addCommands :: "Command list \<Rightarrow> app \<Rightarrow> app" where
  "addCommands cmds a =
     a\<lparr>commands := commands a @ map with_pending cmds,
       history := js_slice_from (- 100) (history a @ cmds),
       timeouts := timeouts a @ [100]\<rparr>"

definition updateCommandStatus :: "string \<Rightarrow> CommandStatus \<Rightarrow> string option \<Rightarrow> app \<Rightarrow> app" where
  "updateCommandStatus ident st err a =
     a\<lparr>commands :=
         map (\<lambda>cmd. if command_id cmd = ident then cmd\<lparr>status := st, error := err\<rparr> else cmd)
           (commands a)\<rparr>"

definition setError :: "string option \<Rightarrow> app \<Rightarrow> app" where
  "setError err a = a\<lparr>store_error := err\<rparr>"

definition setRobotStatus :: "RobotStatus \<Rightarrow> app \<Rightarrow> app" where
  "setRobotStatus st a = a\<lparr>robotStatus := st\<rparr>"

definition setCurrentAction :: "string option \<Rightarrow> app \<Rightarrow> app" where
  "setCurrentAction act a = a\<lparr>currentAction := act\<rparr>"

definition setPosition :: "Position \<Rightarrow> app \<Rightarrow> app" where
  "setPosition pos a = a\<lparr>position := pos\<rparr>"

text \<open>\<^verbatim>\<open>findIndex\<close>: the first index whose element satisfies the test, \<open>-1\<close> when none does.\<close>

fun findIndex :: "('a \<Rightarrow> bool) \<Rightarrow> 'a list \<Rightarrow> int" where
  "findIndex P [] = - 1"
| "findIndex P (a # as) =
     (if P a then 0 else (let r = findIndex P as in if r < 0 then - 1 else r + 1))"

text \<open>
  \<^verbatim>\<open>stopExecution\<close> calls \<^verbatim>\<open>commandExecutor.abort()\<close> first, so it acts on the executor
  and on the stores.
\<close>

definition stopExecution :: "app run_state \<Rightarrow> app run_state" where
  "stopExecution s =
     (let s1 = abort s
      in s1\<lparr>world := setCurrentAction None (setRobotStatus idle (world s1))\<rparr>)"

text \<open>
  The callbacks \<^verbatim>\<open>executeCommands\<close> hands to the executor. \<open>state\<close> is what \<^verbatim>\<open>get()\<close>
  and \<^verbatim>\<open>useRobotStore.getState()\<close> returned when \<^verbatim>\<open>executeCommands\<close> was called: a
  zustand \<^verbatim>\<open>set\<close> builds a new state object, so \<^verbatim>\<open>state.commands\<close> and
  \<^verbatim>\<open>robotStore.position\<close> keep the values of that moment, while \<^verbatim>\<open>get()\<close> inside a
  callback reads the current state.
\<close>

definition store_callbacks :: "app \<Rightarrow> app ExecutorCallbacks" where
  "store_callbacks state =
     \<lparr>onPositionUpdate = (\<lambda>pos w. Inr (setPosition pos w)),
      getPosition = (\<lambda>w. Inr (position state)),
      onStatusChange = Some (\<lambda>st w. Inr (setRobotStatus st w)),
      onActionChange = Some (\<lambda>act w. Inr (setCurrentAction act w))\<rparr>"

definition store_queue_callbacks :: "app \<Rightarrow> app QueueCallbacks" where
  "store_queue_callbacks state =
     \<lparr>onCommandStart = Some (\<lambda>cmd index w.
        Inr (updateCommandStatus (command_id cmd) executing None
               (w\<lparr>currentCommandIndex :=
                    findIndex (\<lambda>c. command_id c = command_id cmd) (commands state)\<rparr>))),
      onCommandComplete = Some (\<lambda>cmd index w.
        Inr (updateCommandStatus (command_id cmd) completed None w)),
      onCommandError = Some (\<lambda>cmd index e w.
        Inr (setError (message e) (updateCommandStatus (command_id cmd) failed (message e) w)))\<rparr>"

text \<open>
  \<^verbatim>\<open>executeCommands\<close>. The pending records are passed as they are; the executor and the
  callbacks read their \<^verbatim>\<open>Command\<close> fields only.
\<close>

definition executeCommands :: "ExecutorConfig \<Rightarrow> app environment \<Rightarrow> app run_state \<Rightarrow> (app, unit) outcome" where
  "executeCommands cfg env s =
     (let state = world s in
      if getIsExecuting s then (Inr (), s)
      else
        (let pendingCommands = filter (\<lambda>cmd. status cmd = pending) (commands state) in
         if length pendingCommands = 0 then (Inr (), s)
         else executeQueue cfg (store_callbacks state) (store_queue_callbacks state) env
                (map Command.truncate pendingCommands) s))"

text \<open>
  A call of \<^verbatim>\<open>addCommand\<close> or of \<^verbatim>\<open>addCommands\<close>, and a sequence of such calls.
\<close>

datatype enqueue_call = Single Command | Batch "Command list"

fun enqueue :: "enqueue_call \<Rightarrow> app \<Rightarrow> app" where
  "enqueue (Single cmd) a = addCommand cmd a"
| "enqueue (Batch cmds) a = addCommands cmds a"

fun enqueued :: "enqueue_call \<Rightarrow> Command list" where
  "enqueued (Single cmd) = [cmd]"
| "enqueued (Batch cmds) = cmds"

definition enqueue_all :: "enqueue_call list \<Rightarrow> app \<Rightarrow> app" where
  "enqueue_all calls a = fold enqueue calls a"

section \<open>The WebSocket service\<close>

text \<open>
  \<^verbatim>\<open>WebSocketService\<close> of \<^verbatim>\<open>services/websocket.ts\<close>: the connection, its reconnects and
  the promises \<^verbatim>\<open>connect\<close> returns. The platform's part is explicit: every \<^verbatim>\<open>WebSocket\<close>
  object created so far, with its \<^verbatim>\<open>readyState\<close> and the promise its \<^verbatim>\<open>onopen\<close>
  handler resolves (the \<^verbatim>\<open>resolve\<close> that handler closes over); every promise returned
  so far; and the delays of the timers \<^verbatim>\<open>reconnect\<close> has set. Message listeners and the
  messages sent are left out.
\<close>

datatype ReadyState = CONNECTING | OPEN | CLOSING | CLOSED

datatype promise_state = Pending | Resolved | Rejected js_error

record socket =
  readyState :: ReadyState
  resolves :: nat

record WebSocketService =
  ws :: "nat option"
  reconnectAttempts :: nat
  heartbeatInterval :: bool
  isConnecting :: bool
  manualDisconnect :: bool
  sockets :: "socket list"
  promises :: "promise_state list"
  reconnect_timers :: "nat list"

definition maxReconnectAttempts :: nat where
  "maxReconnectAttempts = 3"

definition WS_RECONNECT_DELAY :: "nat list" where
  "WS_RECONNECT_DELAY = [1000, 2000, 5000]"

definition initial_service :: WebSocketService where
  "initial_service =
     \<lparr>ws = None, reconnectAttempts = 0, heartbeatInterval = False, isConnecting = False,
      manualDisconnect = False, sockets = [], promises = [], reconnect_timers = []\<rparr>"

definition isReady :: "WebSocketService \<Rightarrow> bool" where
  "isReady s =
     (case ws s of
        None \<Rightarrow> False
      | Some k \<Rightarrow> k < length (sockets s) \<and> readyState (sockets s ! k) = OPEN)"

text \<open>Resolving or rejecting a promise; a settled promise stays as it is.\<close>

definition settle :: "nat \<Rightarrow> promise_state \<Rightarrow> WebSocketService \<Rightarrow> WebSocketService" where
  "settle p v s =
     (if p < length (promises s) \<and> promises s ! p = Pending
      then s\<lparr>promises := (promises s)[p := v]\<rparr> else s)"

definition stopHeartbeat :: "WebSocketService \<Rightarrow> WebSocketService" where
  "stopHeartbeat s = (if heartbeatInterval s then s\<lparr>heartbeatInterval := False\<rparr> else s)"

definition startHeartbeat :: "WebSocketService \<Rightarrow> WebSocketService" where
  "startHeartbeat s = (stopHeartbeat s)\<lparr>heartbeatInterval := True\<rparr>"

text \<open>
  \<^verbatim>\<open>connect\<close>: the promise it returns (by its number) and the state it leaves.
  \<open>ctor_error\<close> is the error \<^verbatim>\<open>new WebSocket(wsUrl)\<close> throws, if it throws. Where the
  executor returns early on \<^verbatim>\<open>isConnecting\<close>, nothing keeps \<^verbatim>\<open>resolve\<close> or
  \<^verbatim>\<open>reject\<close>.
\<close>

definition connect :: "js_error option \<Rightarrow> WebSocketService \<Rightarrow> nat \<times> WebSocketService" where
  "connect ctor_error s0 =
     (let p = length (promises s0);
          s = s0\<lparr>promises := promises s0 @ [Pending], manualDisconnect := False\<rparr>
      in if isReady s then (p, settle p Resolved s)
         else if isConnecting s then (p, s)
         else
           (let s1 = s\<lparr>isConnecting := True\<rparr> in
            case ctor_error of
              Some e \<Rightarrow> (p, settle p (Rejected e) (s1\<lparr>isConnecting := False\<rparr>))
            | None \<Rightarrow>
                (p, s1\<lparr>ws := Some (length (sockets s1)),
                       sockets := sockets s1 @ [\<lparr>readyState = CONNECTING, resolves = p\<rparr>]\<rparr>)))"

text \<open>\<^verbatim>\<open>APP_CONFIG.WS_RECONNECT_DELAY[n] || 5000\<close>.\<close>

definition reconnect_delay :: "nat \<Rightarrow> nat" where
  "reconnect_delay n =
     (if n < length WS_RECONNECT_DELAY
      then (if WS_RECONNECT_DELAY ! n = 0 then 5000 else WS_RECONNECT_DELAY ! n)
      else 5000)"

definition reconnect :: "WebSocketService \<Rightarrow> WebSocketService" where
  "reconnect s =
     (if reconnectAttempts s \<ge> maxReconnectAttempts then s
      else
        (let delay_ms = reconnect_delay (reconnectAttempts s)
         in s\<lparr>reconnectAttempts := reconnectAttempts s + 1,
               reconnect_timers := reconnect_timers s @ [delay_ms]\<rparr>))"

text \<open>The handlers \<^verbatim>\<open>connect\<close> puts on the socket \<open>k\<close>.\<close>

definition onopen :: "nat \<Rightarrow> WebSocketService \<Rightarrow> WebSocketService" where
  "onopen k s =
     settle (resolves (sockets s ! k)) Resolved
       (startHeartbeat (s\<lparr>isConnecting := False, reconnectAttempts := 0\<rparr>))"

definition onerror :: "WebSocketService \<Rightarrow> WebSocketService" where
  "onerror s = s\<lparr>isConnecting := False\<rparr>"

definition onclose :: "WebSocketService \<Rightarrow> WebSocketService" where
  "onclose s =
     (let s1 = stopHeartbeat (s\<lparr>isConnecting := False\<rparr>)
      in if manualDisconnect s1 then s1 else reconnect s1)"

text \<open>\<^verbatim>\<open>disconnect\<close>; \<^verbatim>\<open>ws.close()\<close> starts the closing handshake of a socket not yet closed.\<close>

definition disconnect :: "WebSocketService \<Rightarrow> WebSocketService" where
  "disconnect s =
     (let s1 = s\<lparr>manualDisconnect := True\<rparr>;
          s2 = (case ws s1 of
                  None \<Rightarrow> s1
                | Some k \<Rightarrow>
                    s1\<lparr>sockets :=
                         (if k < length (sockets s1) \<and> readyState (sockets s1 ! k) \<noteq> CLOSED
                          then (sockets s1)[k := (sockets s1 ! k)\<lparr>readyState := CLOSING\<rparr>]
                          else sockets s1),
                       ws := None\<rparr>)
      in stopHeartbeat s2)"

text \<open>
  What can happen to the service: a call of \<^verbatim>\<open>connect\<close> (by the application, or by a
  reconnect timer that fires), a call of \<^verbatim>\<open>disconnect\<close>, and the events of a socket,
  which set its \<^verbatim>\<open>readyState\<close> and run its handler. An event of a socket that was never
  created does nothing.
\<close>

datatype ws_event =
    Connect "js_error option"
  | Disconnect
  | SocketOpen nat
  | SocketError nat
  | SocketClose nat

fun ws_step :: "ws_event \<Rightarrow> WebSocketService \<Rightarrow> WebSocketService" where
  "ws_step (Connect ctor_error) s = snd (connect ctor_error s)"
| "ws_step Disconnect s = disconnect s"
| "ws_step (SocketOpen k) s =
     (if k < length (sockets s)
      then onopen k (s\<lparr>sockets := (sockets s)[k := (sockets s ! k)\<lparr>readyState := OPEN\<rparr>]\<rparr>)
      else s)"
| "ws_step (SocketError k) s = (if k < length (sockets s) then onerror s else s)"
| "ws_step (SocketClose k) s =
     (if k < length (sockets s)
      then onclose (s\<lparr>sockets := (sockets s)[k := (sockets s ! k)\<lparr>readyState := CLOSED\<rparr>]\<rparr>)
      else s)"

definition ws_run :: "ws_event list \<Rightarrow> WebSocketService \<Rightarrow> WebSocketService" where
  "ws_run evs s = fold ws_step evs s"

section \<open>The streaming voice call\<close>

text \<open>
  \<^verbatim>\<open>FileSystem.readAsStringAsync(uri, {encoding: Base64})\<close> belongs to the platform; it is
  the standard Base64 encoding (RFC 4648, with padding): three bytes give four characters.
\<close>

type_synonym byte = "8 word"

definition base64_alphabet :: string where
  "base64_alphabet = ''ABCDEFGHIJKLMNOPQRSTUVWXYZabcdefghijklmnopqrstuvwxyz0123456789+/''"

definition base64_char :: "nat \<Rightarrow> char" where
  "base64_char n = base64_alphabet ! (n mod 64)"

fun base64_encode :: "byte list \<Rightarrow> string" where
  "base64_encode [] = []"
| "base64_encode [a] =
     [base64_char (unat a div 4), base64_char (unat a mod 4 * 16), CHR ''='', CHR ''='']"
| "base64_encode [a, b] =
     [base64_char (unat a div 4), base64_char (unat a mod 4 * 16 + unat b div 16),
      base64_char (unat b mod 16 * 4), CHR ''='']"
| "base64_encode (a # b # c # rest) =
     [base64_char (unat a div 4), base64_char (unat a mod 4 * 16 + unat b div 16),
      base64_char (unat b mod 16 * 4 + unat c div 64), base64_char (unat c mod 64)]
     @ base64_encode rest"

text \<open>
  The refs of \<^verbatim>\<open>useVoiceCall\<close> that \<^verbatim>\<open>sendAudioChunk\<close> reads and writes, and the calls of
  \<^verbatim>\<open>wsService.sendCallAudio(chunk, isFirstChunk)\<close> made so far.
\<close>

record voice_call =
  isInCall :: bool
  lastAudioPosition :: nat
  isFirstChunk :: bool
  sent :: "(string \<times> bool) list"

text \<open>
  One call of \<^verbatim>\<open>sendAudioChunk\<close>. \<open>uri\<close> is \<^verbatim>\<open>audioRecorder.uri\<close>; \<open>file\<close> is the
  recording at that moment, \<open>None\<close> when it does not exist. The file is taken not to grow
  between \<^verbatim>\<open>getInfoAsync\<close> and \<^verbatim>\<open>readAsStringAsync\<close>.
\<close>

definition sendAudioChunk :: "string option \<Rightarrow> byte list option \<Rightarrow> voice_call \<Rightarrow> voice_call" where
  "sendAudioChunk uri file s =
     (if \<not> isInCall s then s
      else if uri = None then s
      else
        (case file of
           None \<Rightarrow> s
         | Some bytes \<Rightarrow>
             if length bytes = 0 then s
             else
               (let currentSize = length bytes in
                if currentSize \<le> lastAudioPosition s then s
                else
                  (let base64Data = base64_encode bytes;
                       base64Start = \<lceil>real (lastAudioPosition s) / 3\<rceil> * 4;
                       newChunk = js_slice_from base64Start base64Data
                   in if length newChunk > 0
                      then s\<lparr>sent := sent s @ [(newChunk, isFirstChunk s)],
                             lastAudioPosition := currentSize,
                             isFirstChunk := False\<rparr>
                      else s))))"

text \<open>What \<^verbatim>\<open>startCall\<close> sets before it starts the timer.\<close>

definition startCall :: "voice_call \<Rightarrow> voice_call" where
  "startCall s = s\<lparr>isInCall := True, lastAudioPosition := 0, isFirstChunk := True\<rparr>"

text \<open>The timer's ticks of one call: the recording is \<open>files ! k\<close> at the tick \<open>k\<close>.\<close>

definition ticks :: "string \<Rightarrow> byte list list \<Rightarrow> voice_call \<Rightarrow> voice_call" where
  "ticks uri files s = fold (\<lambda>file. sendAudioChunk (Some uri) (Some file)) files s"

section \<open>Auxiliary notions and example inputs\<close>

text \<open>
  The controller of the executor has not been aborted. \<^verbatim>\<open>abort()\<close> sets the field to
  \<^verbatim>\<open>null\<close> right after aborting the controller, so this holds whenever a method of the
  class is entered or resumed.
\<close>

definition never_aborted :: "'w run_state \<Rightarrow> bool" where
  "never_aborted s = (abortController s \<noteq> Some True)"


text \<open>The position the step \<open>k\<close> of the interpolation emits.\<close>

definition interpolated :: "Position \<Rightarrow> real \<times> real \<times> real \<Rightarrow> nat \<Rightarrow> Position" where
  "interpolated cur d k =
     (case d of (dx, dy, dz) \<Rightarrow>
        \<lparr>x = x cur + dx * real k, y = y cur + dy * real k, z = z cur + dz * real k\<rparr>)"

text \<open>
  Two invariants of the WebSocket service: every \<^verbatim>\<open>onopen\<close> handler resolves a promise
  that exists, and no handler resolves the promise \<open>p\<close>, which is pending.
\<close>

definition handlers_ok :: "WebSocketService \<Rightarrow> bool" where
  "handlers_ok s = list_all (\<lambda>r. r < length (promises s)) (map resolves (sockets s))"

definition unreferenced :: "nat \<Rightarrow> WebSocketService \<Rightarrow> bool" where
  "unreferenced p s =
     (p < length (promises s) \<and> promises s ! p = Pending \<and> p \<notin> set (map resolves (sockets s)))"

text \<open>
  Two commands, and the stores with both of them enqueued and the executor at rest.
\<close>

definition forward_1 :: Command where
  "forward_1 =
     \<lparr>command = ''forward'', params = [(''distance'', 1)], description = ''forward 1'',
      command_id = ''c1'', timestamp = ''t1'', order = None\<rparr>"

definition right_2 :: Command where
  "right_2 =
     \<lparr>command = ''right'', params = [(''distance'', 2)], description = ''right 2'',
      command_id = ''c2'', timestamp = ''t2'', order = None\<rparr>"

definition two_queued :: "app run_state" where
  "two_queued =
     \<lparr>isExecuting = False, abortController = None,
      world = addCommands [forward_1, right_2] initial_app, trace = [], clock = 0\<rparr>"

text \<open>
  The user stops the execution while the executor awaits its first delay: what
  \<^verbatim>\<open>stopExecution\<close> does, as actions of the environment. Nothing else happens.
\<close>

definition stop_actions :: "app env_action list" where
  "stop_actions = [CallAbort, Change (setRobotStatus idle), Change (setCurrentAction None)]"

definition stop_during_first_delay :: "app environment" where
  "stop_during_first_delay = (\<lambda>k. if k = 0 then stop_actions else [])"

definition quiet :: "'w environment" where
  "quiet = (\<lambda>k. [])"

text \<open>
  Three states of the run of \<^verbatim>\<open>executeCommands\<close> on these stores: the run has set the
  busy flag, created its controller and reported \<^verbatim>\<open>busy\<close>; it has started the first
  command and is about to await the first delay; and it is suspended in that delay, in
  which the user has stopped the execution.
\<close>

definition first_run_started :: "app run_state" where
  "first_run_started =
     two_queued\<lparr>isExecuting := True, abortController := Some False,
       world := setRobotStatus busy (world two_queued),
       trace := [StatusChange busy]\<rparr>"

definition first_run_at_first_delay :: "app run_state" where
  "first_run_at_first_delay =
     first_run_started\<lparr>
       world := setCurrentAction (Some ''forward 1'')
                  (updateCommandStatus ''c1'' executing None
                     ((world first_run_started)\<lparr>currentCommandIndex := 0\<rparr>)),
       trace := [StatusChange busy, CommandStart forward_1 0, ActionChange (Some ''forward 1'')]\<rparr>"

definition stopped_while_suspended :: "app run_state" where
  "stopped_while_suspended = delay stop_during_first_delay 50 first_run_at_first_delay"

text \<open>
  Callbacks whose state is the position itself, and such callbacks whose
  \<^verbatim>\<open>onPositionUpdate\<close> throws below the plane \<open>z = 0\<close>.
\<close>

definition position_callbacks :: "Position ExecutorCallbacks" where
  "position_callbacks =
     \<lparr>onPositionUpdate = (\<lambda>p w. Inr p), getPosition = (\<lambda>w. Inr w),
      onStatusChange = None, onActionChange = None\<rparr>"

definition fragile_callbacks :: "Position ExecutorCallbacks" where
  "fragile_callbacks =
     \<lparr>onPositionUpdate = (\<lambda>p w. if z p < 0 then Inl (Error ''below ground'') else Inr p),
      getPosition = (\<lambda>w. Inr w),
      onStatusChange = None, onActionChange = None\<rparr>"

text \<open>Lifecycle callbacks that are present and do nothing.\<close>

definition idle_queue_callbacks :: "'w QueueCallbacks" where
  "idle_queue_callbacks =
     \<lparr>onCommandStart = Some (\<lambda>cmd i w. Inr w),
      onCommandComplete = Some (\<lambda>cmd i w. Inr w),
      onCommandError = Some (\<lambda>cmd i e w. Inr w)\<rparr>"

definition at_origin :: "Position run_state" where
  "at_origin =
     \<lparr>isExecuting = False, abortController = None, world = \<lparr>x = 0, y = 0, z = 0\<rparr>,
      trace = [], clock = 0\<rparr>"

text \<open>A recording of 22 bytes, and a call that has just started.\<close>

definition recording_22 :: "byte list" where
  "recording_22 = map of_nat [0..<22]"

definition call_started :: voice_call where
  "call_started =
     startCall \<lparr>isInCall = False, lastAudioPosition = 0, isFirstChunk = True, sent = []\<rparr>"

section \<open>Properties of the target position\<close>

text \<open>
  Claim C3, as the code has it. For every command and every starting position the target
  follows the directional vocabulary: \<open>forward\<close> subtracts the distance from \<open>z\<close>,
  \<open>backward\<close> adds it to \<open>z\<close>, \<open>left\<close> subtracts it from \<open>x\<close>, \<open>right\<close> adds it to
  \<open>x\<close>, \<open>up\<close> adds it to \<open>y\<close>, \<open>down\<close> subtracts it from \<open>y\<close>; \<open>turn_left\<close>,
  \<open>turn_right\<close> and \<open>stop\<close> leave the position unchanged. The distance is the
  \<open>distance\<close> parameter, and it is 1 when the parameter is absent and also when it is 0
  (\<^verbatim>\<open>params.distance || 1\<close>). From the origin, \<open>forward\<close> with distance 3 ends at
  \<open>(0, 0, -3)\<close> and \<open>right\<close> with distance 2 at \<open>(2, 0, 0)\<close>.
\<close>

theorem calculateTargetPosition_vocabulary:
  "(let d = (case map_of (params cmd) ''distance'' of
               None \<Rightarrow> 1
             | Some n \<Rightarrow> if n = 0 then 1 else n)
    in calculateTargetPosition (cmd\<lparr>command := ''forward''\<rparr>) p = p\<lparr>z := z p - d\<rparr> \<and>
       calculateTargetPosition (cmd\<lparr>command := ''backward''\<rparr>) p = p\<lparr>z := z p + d\<rparr> \<and>
       calculateTargetPosition (cmd\<lparr>command := ''left''\<rparr>) p = p\<lparr>x := x p - d\<rparr> \<and>
       calculateTargetPosition (cmd\<lparr>command := ''right''\<rparr>) p = p\<lparr>x := x p + d\<rparr> \<and>
       calculateTargetPosition (cmd\<lparr>command := ''up''\<rparr>) p = p\<lparr>y := y p + d\<rparr> \<and>
       calculateTargetPosition (cmd\<lparr>command := ''down''\<rparr>) p = p\<lparr>y := y p - d\<rparr>) \<and>
   calculateTargetPosition (cmd\<lparr>command := ''turn_left''\<rparr>) p = p \<and>
   calculateTargetPosition (cmd\<lparr>command := ''turn_right''\<rparr>) p = p \<and>
   calculateTargetPosition (cmd\<lparr>command := ''stop''\<rparr>) p = p \<and>
   calculateTargetPosition (cmd\<lparr>command := ''forward'', params := [(''distance'', 3)]\<rparr>)
     \<lparr>x = 0, y = 0, z = 0\<rparr> = \<lparr>x = 0, y = 0, z = - 3\<rparr> \<and>
   calculateTargetPosition (cmd\<lparr>command := ''right'', params := [(''distance'', 2)]\<rparr>)
     \<lparr>x = 0, y = 0, z = 0\<rparr> = \<lparr>x = 2, y = 0, z = 0\<rparr>"
  by (simp add: calculateTargetPosition_def js_or_def Let_def split: option.split)

text \<open>
  Claim C3 as the specification states it fails for a \<open>distance\<close> parameter that is
  present and 0: the claim has \<open>forward\<close> subtract 0 from \<open>z\<close>, the code subtracts 1.
\<close>

theorem calculateTargetPosition_zero_distance:
  "map_of (params \<lparr>command = ''forward'', params = [(''distance'', 0)], description = '''',
                   command_id = '''', timestamp = '''', order = None\<rparr>) ''distance'' = Some 0 \<and>
   calculateTargetPosition
     \<lparr>command = ''forward'', params = [(''distance'', 0)], description = '''',
      command_id = '''', timestamp = '''', order = None\<rparr>
     \<lparr>x = 0, y = 0, z = 0\<rparr> = \<lparr>x = 0, y = 0, z = - 1\<rparr> \<and>
   calculateTargetPosition
     \<lparr>command = ''forward'', params = [(''distance'', 0)], description = '''',
      command_id = '''', timestamp = '''', order = None\<rparr>
     \<lparr>x = 0, y = 0, z = 0\<rparr> \<noteq> \<lparr>x = 0, y = 0, z = 0 - 0\<rparr>"
  by (simp add: calculateTargetPosition_def js_or_def)

section \<open>Properties of the executor\<close>

subsection \<open>The trace only grows\<close>

lemma position_updates_append:
  "position_updates (es @ fs) = position_updates es @ position_updates fs"
  by (induction es rule: position_updates.induct) simp_all

lemma abort_trace: "trace (abort s) = trace s"
  by (simp add: abort_def Let_def)

lemma apply_env_trace: "trace (apply_env a s) = trace s"
  by (cases a) (simp_all add: abort_trace)

lemma fold_apply_env_trace: "trace (fold apply_env as s) = trace s"
  by (induction as arbitrary: s) (simp_all add: apply_env_trace)

lemma delay_trace: "trace (delay env ms s) = trace s @ [Delay ms]"
  by (simp add: delay_def fold_apply_env_trace)

lemma delay_prefix: "prefix (trace s) (trace (delay env ms s))"
  by (simp add: delay_trace)

lemma invoke_prefix: "prefix (trace s) (trace (snd (invoke ev f s)))"
  by (simp add: invoke_def Let_def split: sum.split)

lemma invoke_opt_prefix: "prefix (trace s) (trace (snd (invoke_opt ev fo s)))"
  by (cases fo) (simp_all add: invoke_opt_def invoke_prefix)

lemma and_then_prefix:
  assumes "prefix (trace s) (trace (snd r))"
    and "\<And>v s1. prefix (trace s1) (trace (snd (f v s1)))"
  shows "prefix (trace s) (trace (snd (and_then r f)))"
proof (cases r)
  case (Pair res s1)
  show ?thesis
  proof (cases res)
    case (Inl e)
    then show ?thesis using assms(1) Pair by (simp add: and_then_def)
  next
    case (Inr v)
    have "prefix (trace s1) (trace (snd (f v s1)))" by (rule assms(2))
    moreover have "prefix (trace s) (trace s1)" using assms(1) Pair by simp
    ultimately show ?thesis
      using Pair Inr by (auto simp: and_then_def intro: prefix_order.trans)
  qed
qed

lemma animation_step_prefix:
  "prefix (trace s) (trace (snd (animation_step cfg cbs env cur d i s)))"
proof -
  obtain dx dy dz where d: "d = (dx, dy, dz)" by (cases d) auto
  show ?thesis
  proof (cases "signal_aborted_opt s")
    case True
    then show ?thesis by (simp add: animation_step_def d)
  next
    case False
    then show ?thesis
      using prefix_order.trans [OF delay_prefix invoke_prefix]
      by (simp add: animation_step_def d Let_def)
  qed
qed

lemma animation_loop_prefix:
  "prefix (trace s) (trace (snd (animation_loop cfg cbs env cur d i s)))"
proof (induction cfg cbs env cur d i s rule: animation_loop.induct)
  case (1 cfg cbs env cur d i s)
  show ?case
  proof (cases "i \<le> animationSteps cfg")
    case False
    then show ?thesis by (subst animation_loop.simps) simp
  next
    case True
    obtain res s1 where step: "animation_step cfg cbs env cur d i s = (res, s1)"
      by (cases "animation_step cfg cbs env cur d i s") auto
    have p1: "prefix (trace s) (trace s1)"
      using animation_step_prefix [of s cfg cbs env cur d i] step by simp
    show ?thesis
    proof (cases res)
      case (Inl e)
      then show ?thesis using True step p1 by (subst animation_loop.simps) simp
    next
      case (Inr u)
      have "prefix (trace s1) (trace (snd (animation_loop cfg cbs env cur d (Suc i) s1)))"
        using "1.IH" [OF True] step Inr by simp
      then have "prefix (trace s) (trace (snd (animation_loop cfg cbs env cur d (Suc i) s1)))"
        using p1 by (rule prefix_order.trans [rotated])
      then show ?thesis using True step Inr by (subst animation_loop.simps) simp
    qed
  qed
qed

lemma executeCommand_prefix:
  "prefix (trace s) (trace (snd (executeCommand cfg cbs env cmd s)))"
proof (cases "getPosition cbs (world s)")
  case (Inl e)
  then show ?thesis by (simp add: executeCommand_def)
next
  case (Inr cur)
  then show ?thesis
    by (auto simp: executeCommand_def Let_def delay_prefix
          intro!: and_then_prefix animation_loop_prefix invoke_prefix)
qed

lemma try_command_prefix:
  "prefix (trace s) (trace (snd (try_command cfg cbs lc env cmd i s)))"
proof -
  define r where "r = and_then (executeCommand cfg cbs env cmd s)
             (\<lambda>u. invoke_opt (CommandComplete cmd i) (map_option (\<lambda>f. f cmd i) (onCommandComplete lc)))"
  have p: "prefix (trace s) (trace (snd r))"
    unfolding r_def by (intro and_then_prefix executeCommand_prefix invoke_opt_prefix)
  obtain res s1 where r: "r = (res, s1)" by (cases r) auto
  have p1: "prefix (trace s) (trace s1)" using p r by simp
  have "prefix (trace s1) (trace (snd (and_then
                 (invoke_opt (CommandError cmd i e) (map_option (\<lambda>f. f cmd i e) (onCommandError lc)) s1)
                 (\<lambda>u s2. (Inr Continue, s2)))))" for e
    by (intro and_then_prefix invoke_opt_prefix) simp
  then have p2: "prefix (trace s) (trace (snd (and_then
                 (invoke_opt (CommandError cmd i e) (map_option (\<lambda>f. f cmd i e) (onCommandError lc)) s1)
                 (\<lambda>u s2. (Inr Continue, s2)))))" for e
    using p1 by (rule prefix_order.trans [rotated])
  show ?thesis
    using r p1 p2 unfolding try_command_def r_def [symmetric]
    by (cases res) simp_all
qed

lemma queue_turn_prefix:
  "prefix (trace s) (trace (snd (queue_turn cfg cbs lc env cmd i s)))"
proof (cases "abortController s")
  case None
  then show ?thesis by (simp add: queue_turn_def)
next
  case (Some a)
  then show ?thesis
    by (auto simp: queue_turn_def intro!: and_then_prefix invoke_opt_prefix try_command_prefix)
qed

lemma queue_loop_prefix:
  "prefix (trace s) (trace (snd (queue_loop cfg cbs lc env cmds i s)))"
proof (induction cmds arbitrary: i s)
  case Nil
  then show ?case by simp
next
  case (Cons cmd rest)
  obtain res s1 where turn: "queue_turn cfg cbs lc env cmd i s = (res, s1)"
    by (cases "queue_turn cfg cbs lc env cmd i s") auto
  have p1: "prefix (trace s) (trace s1)"
    using queue_turn_prefix [of s cfg cbs lc env cmd i] turn by simp
  have p2: "prefix (trace s) (trace (snd (queue_loop cfg cbs lc env rest (Suc i) s1)))"
    using p1 Cons.IH by (rule prefix_order.trans)
  show ?case
  proof (cases res)
    case (Inl e)
    then show ?thesis using turn p1 by simp
  next
    case (Inr c)
    then show ?thesis using turn p1 p2 by (cases c) simp_all
  qed
qed

lemma queue_try_prefix:
  "prefix (trace s) (trace (snd (queue_try cfg cbs lc env cmds s)))"
  unfolding queue_try_def
  by (intro and_then_prefix queue_loop_prefix invoke_opt_prefix)

lemma queue_catch_prefix:
  "prefix (trace (snd r)) (trace (snd (queue_catch cbs r)))"
  by (cases r) (auto simp: queue_catch_def invoke_opt_prefix split: sum.split)

lemma queue_finally_trace: "trace (snd (queue_finally r)) = trace (snd r)"
  by (cases r) (simp add: queue_finally_def)

lemma queue_body_prefix:
  "prefix (trace s) (trace (snd (queue_finally (queue_catch cbs (queue_try cfg cbs lc env cmds s)))))"
  unfolding queue_finally_trace
  using queue_try_prefix queue_catch_prefix by (rule prefix_order.trans)

subsection \<open>The executor never sees an aborted controller\<close>

lemma abort_never_aborted: "never_aborted (abort s)"
  by (simp add: never_aborted_def abort_def Let_def)

lemma apply_env_never_aborted: "never_aborted s \<Longrightarrow> never_aborted (apply_env a s)"
  by (cases a) (simp_all add: abort_never_aborted, simp add: never_aborted_def)

lemma fold_apply_env_never_aborted:
  "never_aborted s \<Longrightarrow> never_aborted (fold apply_env as s)"
  by (induction as arbitrary: s) (simp_all add: apply_env_never_aborted)

lemma delay_never_aborted: "never_aborted s \<Longrightarrow> never_aborted (delay env ms s)"
  unfolding delay_def by (rule fold_apply_env_never_aborted) (simp add: never_aborted_def)

lemma invoke_never_aborted: "never_aborted s \<Longrightarrow> never_aborted (snd (invoke ev f s))"
  by (simp add: invoke_def Let_def never_aborted_def split: sum.split)

lemma invoke_opt_never_aborted: "never_aborted s \<Longrightarrow> never_aborted (snd (invoke_opt ev fo s))"
  by (cases fo) (simp_all add: invoke_opt_def invoke_never_aborted)

lemma and_then_never_aborted:
  assumes "never_aborted (snd r)"
    and "\<And>v s1. never_aborted s1 \<Longrightarrow> never_aborted (snd (f v s1))"
  shows "never_aborted (snd (and_then r f))"
proof (cases r)
  case (Pair res s1)
  then show ?thesis using assms by (cases res) (simp_all add: and_then_def)
qed

lemma not_aborted: "never_aborted s \<Longrightarrow> \<not> signal_aborted_opt s"
  by (cases "abortController s") (simp_all add: signal_aborted_opt_def never_aborted_def)

lemma animation_step_runs:
  assumes "never_aborted s"
  shows "animation_step cfg cbs env cur d i s =
           invoke (PositionUpdate (interpolated cur d i)) (onPositionUpdate cbs (interpolated cur d i))
             (delay env (animationDuration cfg / real (animationSteps cfg)) s)"
proof -
  obtain dx dy dz where d: "d = (dx, dy, dz)" by (cases d) auto
  show ?thesis
    using not_aborted [OF assms] by (simp add: animation_step_def d interpolated_def Let_def)
qed

lemma animation_step_never_aborted:
  "never_aborted s \<Longrightarrow> never_aborted (snd (animation_step cfg cbs env cur d i s))"
  by (simp add: animation_step_runs invoke_never_aborted delay_never_aborted)

lemma animation_loop_never_aborted:
  "never_aborted s \<Longrightarrow> never_aborted (snd (animation_loop cfg cbs env cur d i s))"
proof (induction cfg cbs env cur d i s rule: animation_loop.induct)
  case (1 cfg cbs env cur d i s)
  show ?case
  proof (cases "i \<le> animationSteps cfg")
    case False
    then show ?thesis using "1.prems" by (subst animation_loop.simps) simp
  next
    case True
    obtain res s1 where step: "animation_step cfg cbs env cur d i s = (res, s1)"
      by (cases "animation_step cfg cbs env cur d i s") auto
    have n1: "never_aborted s1"
      using animation_step_never_aborted [OF "1.prems", of cfg cbs env cur d i] step by simp
    show ?thesis
    proof (cases res)
      case (Inl e)
      then show ?thesis using True step n1 by (subst animation_loop.simps) simp
    next
      case (Inr u)
      have "never_aborted (snd (animation_loop cfg cbs env cur d (Suc i) s1))"
        using "1.IH" [OF True] step Inr n1 by simp
      then show ?thesis using True step Inr by (subst animation_loop.simps) simp
    qed
  qed
qed

lemma executeCommand_never_aborted:
  assumes "never_aborted s"
  shows "never_aborted (snd (executeCommand cfg cbs env cmd s))"
proof (cases "getPosition cbs (world s)")
  case (Inl e)
  then show ?thesis using assms by (simp add: executeCommand_def)
next
  case (Inr cur)
  then show ?thesis
    using assms
    by (auto simp: executeCommand_def Let_def delay_never_aborted
          intro!: and_then_never_aborted animation_loop_never_aborted invoke_never_aborted)
qed

text \<open>
  Hence the cancellation error of \<^verbatim>\<open>executeCommand\<close> is never thrown: an error of the
  interpolation is an error a callback threw.
\<close>

lemma animation_step_error:
  assumes "never_aborted s" and "animation_step cfg cbs env cur d i s = (Inl e, s1)"
  shows "\<exists>p w. onPositionUpdate cbs p w = Inl e"
  using assms(2) unfolding animation_step_runs [OF assms(1)]
  by (auto simp: invoke_def Let_def split: sum.splits)

lemma animation_loop_error:
  "never_aborted s \<Longrightarrow> animation_loop cfg cbs env cur d i s = (Inl e, s') \<Longrightarrow>
   \<exists>p w. onPositionUpdate cbs p w = Inl e"
proof (induction cfg cbs env cur d i s rule: animation_loop.induct)
  case (1 cfg cbs env cur d i s)
  show ?case
  proof (cases "i \<le> animationSteps cfg")
    case False
    then show ?thesis using "1.prems"(2) by (subst (asm) animation_loop.simps) simp
  next
    case True
    obtain res s1 where step: "animation_step cfg cbs env cur d i s = (res, s1)"
      by (cases "animation_step cfg cbs env cur d i s") auto
    have n1: "never_aborted s1"
      using animation_step_never_aborted [OF "1.prems"(1), of cfg cbs env cur d i] step by simp
    show ?thesis
    proof (cases res)
      case (Inl e1)
      have "e1 = e"
        using "1.prems"(2) True step Inl by (subst (asm) animation_loop.simps) simp
      then show ?thesis using animation_step_error [OF "1.prems"(1)] step Inl by blast
    next
      case (Inr u)
      have "animation_loop cfg cbs env cur d (Suc i) s1 = (Inl e, s')"
        using "1.prems"(2) True step Inr by (subst (asm) animation_loop.simps) simp
      then show ?thesis using "1.IH" [OF True] step Inr n1 by simp
    qed
  qed
qed

lemma executeCommand_error:
  assumes "never_aborted s" and "executeCommand cfg cbs env cmd s = (Inl e, s')"
  shows "getPosition cbs (world s) = Inl e \<or> (\<exists>p w. onPositionUpdate cbs p w = Inl e)"
proof (cases "getPosition cbs (world s)")
  case (Inl e1)
  then show ?thesis using assms(2) by (simp add: executeCommand_def)
next
  case (Inr cur)
  define tgt where "tgt = calculateTargetPosition cmd cur"
  define d where "d = ((x tgt - x cur) / real (animationSteps cfg),
                       (y tgt - y cur) / real (animationSteps cfg),
                       (z tgt - z cur) / real (animationSteps cfg))"
  show ?thesis
  proof (cases "x cur = x tgt \<and> y cur = y tgt \<and> z cur = z tgt")
    case True
    then show ?thesis using assms(2) Inr by (simp add: executeCommand_def tgt_def)
  next
    case False
    then have ne: "(x cur = x tgt \<and> y cur = y tgt \<and> z cur = z tgt) = False" by simp
    have run: "and_then (animation_loop cfg cbs env cur d 1 s)
                      (\<lambda>u. invoke (PositionUpdate tgt) (onPositionUpdate cbs tgt)) = (Inl e, s')"
      using assms(2) Inr by (simp add: executeCommand_def tgt_def [symmetric] Let_def d_def ne)
    obtain res s1 where loop: "animation_loop cfg cbs env cur d 1 s = (res, s1)"
      by (cases "animation_loop cfg cbs env cur d 1 s") auto
    show ?thesis
    proof (cases res)
      case (Inl e1)
      then have "animation_loop cfg cbs env cur d 1 s = (Inl e, s')"
        using run loop by (simp add: and_then_def)
      then show ?thesis using animation_loop_error [OF assms(1)] by blast
    next
      case (Inr u)
      then have "invoke (PositionUpdate tgt) (onPositionUpdate cbs tgt) s1 = (Inl e, s')"
        using run loop by (simp add: and_then_def)
      then show ?thesis by (auto simp: invoke_def Let_def split: sum.splits)
    qed
  qed
qed

subsection \<open>The interpolation\<close>

lemma invoke_returns:
  assumes "f (world s) = Inr w"
  shows "invoke ev f s = (Inr (), s\<lparr>trace := trace s @ [ev], world := w\<rparr>)"
  using assms by (simp add: invoke_def Let_def)

lemma animation_step_returns:
  assumes total: "\<forall>p w. \<exists>w'. onPositionUpdate cbs p w = Inr w'"
    and ctrl: "never_aborted s"
  shows "\<exists>s'. animation_step cfg cbs env cur d i s = (Inr (), s') \<and>
           never_aborted s' \<and>
           position_updates (trace s') = position_updates (trace s) @ [interpolated cur d i]"
proof -
  define s1 where "s1 = delay env (animationDuration cfg / real (animationSteps cfg)) s"
  define p where "p = interpolated cur d i"
  obtain w where w: "onPositionUpdate cbs p (world s1) = Inr w" using total by blast
  have c1: "never_aborted s1" unfolding s1_def using ctrl by (rule delay_never_aborted)
  have "animation_step cfg cbs env cur d i s = invoke (PositionUpdate p) (onPositionUpdate cbs p) s1"
    by (simp add: animation_step_runs [OF ctrl] s1_def p_def)
  also have "\<dots> = (Inr (), s1\<lparr>trace := trace s1 @ [PositionUpdate p], world := w\<rparr>)"
    using w by (rule invoke_returns)
  finally have "animation_step cfg cbs env cur d i s =
      (Inr (), s1\<lparr>trace := trace s1 @ [PositionUpdate p], world := w\<rparr>)" .
  moreover have "position_updates (trace s1 @ [PositionUpdate p]) = position_updates (trace s) @ [p]"
    by (simp add: s1_def delay_trace position_updates_append)
  moreover have "never_aborted (s1\<lparr>trace := trace s1 @ [PositionUpdate p], world := w\<rparr>)"
    using c1 by (simp add: never_aborted_def)
  ultimately show ?thesis by (simp add: p_def)
qed

lemma animation_loop_returns:
  assumes total: "\<forall>p w. \<exists>w'. onPositionUpdate cbs p w = Inr w'"
    and ctrl: "never_aborted s"
  shows "\<exists>s'. animation_loop cfg cbs env cur d i s = (Inr (), s') \<and>
           never_aborted s' \<and>
           position_updates (trace s') =
             position_updates (trace s) @ map (interpolated cur d) [i..<Suc (animationSteps cfg)]"
  using ctrl
proof (induction "Suc (animationSteps cfg) - i" arbitrary: i s)
  case 0
  then have "\<not> i \<le> animationSteps cfg" by simp
  then show ?case using "0.prems" by (subst animation_loop.simps) simp
next
  case (Suc n)
  then have le: "i \<le> animationSteps cfg" by simp
  obtain s1 where s1: "animation_step cfg cbs env cur d i s = (Inr (), s1)"
      "never_aborted s1"
      "position_updates (trace s1) = position_updates (trace s) @ [interpolated cur d i]"
    using animation_step_returns [OF total Suc.prems] by blast
  have "n = Suc (animationSteps cfg) - Suc i" using Suc.hyps(2) by simp
  from Suc.hyps(1) [OF this s1(2)]
  obtain s' where s': "animation_loop cfg cbs env cur d (Suc i) s1 = (Inr (), s')"
      "never_aborted s'"
      "position_updates (trace s') =
         position_updates (trace s1) @ map (interpolated cur d) [Suc i..<Suc (animationSteps cfg)]"
    by blast
  have "animation_loop cfg cbs env cur d i s = (Inr (), s')"
    using le s1(1) s'(1) by (subst animation_loop.simps) simp
  moreover have "[i..<Suc (animationSteps cfg)] = i # [Suc i..<Suc (animationSteps cfg)]"
    using le by (simp add: upt_conv_Cons)
  ultimately show ?case using s'(2) s'(3) s1(3) by simp
qed

text \<open>
  Claim C2. A command whose target differs from the current position, executed with
  \<open>animationSteps cfg\<close> steps (20 by default), emits that many interpolated positions,
  the \<open>i\<close>-th being \<open>current + i * (target - current) / steps\<close>, and then the target
  itself, which is the last position emitted. This holds whatever the environment does
  during the delays, calls of \<^verbatim>\<open>abort()\<close> included, as long as \<^verbatim>\<open>onPositionUpdate\<close> does not
  throw; the controller is not aborted when a method of the class is entered.
\<close>

theorem executeCommand_interpolates:
  assumes pos: "getPosition cbs (world s) = Inr currentPos"
    and tgt: "calculateTargetPosition cmd currentPos = targetPos"
    and moves: "targetPos \<noteq> currentPos"
    and total: "\<forall>p w. \<exists>w'. onPositionUpdate cbs p w = Inr w'"
    and ctrl: "abortController s \<noteq> Some True"
  shows "animationSteps DEFAULT_CONFIG = 20 \<and>
         (\<exists>s'. executeCommand cfg cbs env cmd s = (Inr (), s') \<and>
           position_updates (trace s') =
             position_updates (trace s) @
             map (\<lambda>i. \<lparr>x = x currentPos + real i * (x targetPos - x currentPos) / real (animationSteps cfg),
                        y = y currentPos + real i * (y targetPos - y currentPos) / real (animationSteps cfg),
                        z = z currentPos + real i * (z targetPos - z currentPos) / real (animationSteps cfg)\<rparr>)
               [1..<Suc (animationSteps cfg)] @
             [targetPos])"
proof -
  define d where "d = ((x targetPos - x currentPos) / real (animationSteps cfg),
                       (y targetPos - y currentPos) / real (animationSteps cfg),
                       (z targetPos - z currentPos) / real (animationSteps cfg))"
  have ne: "(x currentPos = x targetPos \<and> y currentPos = y targetPos \<and> z currentPos = z targetPos) = False"
    using moves by (cases currentPos, cases targetPos) auto
  have na: "never_aborted s" using ctrl by (simp add: never_aborted_def)
  obtain s1 where s1: "animation_loop cfg cbs env currentPos d 1 s = (Inr (), s1)"
      "position_updates (trace s1) =
         position_updates (trace s) @ map (interpolated currentPos d) [1..<Suc (animationSteps cfg)]"
    using animation_loop_returns [OF total na] by blast
  obtain w where w: "onPositionUpdate cbs targetPos (world s1) = Inr w" using total by blast
  define s2 where "s2 = s1\<lparr>trace := trace s1 @ [PositionUpdate targetPos], world := w\<rparr>"
  have "executeCommand cfg cbs env cmd s =
          and_then (animation_loop cfg cbs env currentPos d 1 s)
            (\<lambda>u. invoke (PositionUpdate targetPos) (onPositionUpdate cbs targetPos))"
    by (simp add: executeCommand_def pos tgt Let_def d_def ne)
  also have "\<dots> = invoke (PositionUpdate targetPos) (onPositionUpdate cbs targetPos) s1"
    using s1(1) by (simp add: and_then_def)
  also have "\<dots> = (Inr (), s2)"
    unfolding s2_def using w by (rule invoke_returns)
  finally have run: "executeCommand cfg cbs env cmd s = (Inr (), s2)" .
  have "interpolated currentPos d =
          (\<lambda>i. \<lparr>x = x currentPos + real i * (x targetPos - x currentPos) / real (animationSteps cfg),
                 y = y currentPos + real i * (y targetPos - y currentPos) / real (animationSteps cfg),
                 z = z currentPos + real i * (z targetPos - z currentPos) / real (animationSteps cfg)\<rparr>)"
    by (rule ext) (simp add: interpolated_def d_def)
  then have "position_updates (trace s2) =
      position_updates (trace s) @
      map (\<lambda>i. \<lparr>x = x currentPos + real i * (x targetPos - x currentPos) / real (animationSteps cfg),
                 y = y currentPos + real i * (y targetPos - y currentPos) / real (animationSteps cfg),
                 z = z currentPos + real i * (z targetPos - z currentPos) / real (animationSteps cfg)\<rparr>)
        [1..<Suc (animationSteps cfg)] @ [targetPos]"
    using s1(2) by (simp add: s2_def position_updates_append)
  with run show ?thesis by (simp add: DEFAULT_CONFIG_def)
qed

text \<open>
  The witness: \<open>forward\<close> with distance 3 from the origin, in 4 steps, while \<^verbatim>\<open>abort()\<close> is
  called during the first delay.
\<close>

theorem executeCommand_interpolates_witness:
  "getPosition position_callbacks (world at_origin) = Inr \<lparr>x = 0, y = 0, z = 0\<rparr> \<and>
   calculateTargetPosition (forward_1\<lparr>params := [(''distance'', 3)]\<rparr>) \<lparr>x = 0, y = 0, z = 0\<rparr>
     = \<lparr>x = 0, y = 0, z = - 3\<rparr> \<and>
   \<lparr>x = 0, y = 0, z = - 3\<rparr> \<noteq> \<lparr>x = 0, y = 0, z = 0 :: real\<rparr> \<and>
   (\<forall>p w. \<exists>w'. onPositionUpdate position_callbacks p w = Inr w') \<and>
   abortController at_origin \<noteq> Some True \<and>
   (\<exists>s'. executeCommand \<lparr>animationDuration = 1000, animationSteps = 4\<rparr> position_callbacks
            (\<lambda>k. if k = 0 then [CallAbort] else [])
            (forward_1\<lparr>params := [(''distance'', 3)]\<rparr>) at_origin = (Inr (), s') \<and>
          position_updates (trace s') =
            [\<lparr>x = 0, y = 0, z = - (3 / 4)\<rparr>, \<lparr>x = 0, y = 0, z = - (3 / 2)\<rparr>,
             \<lparr>x = 0, y = 0, z = - (9 / 4)\<rparr>, \<lparr>x = 0, y = 0, z = - 3\<rparr>,
             \<lparr>x = 0, y = 0, z = - 3\<rparr>])"
proof -
  have pos: "getPosition position_callbacks (world at_origin) = Inr \<lparr>x = 0, y = 0, z = 0\<rparr>"
    by (simp add: position_callbacks_def at_origin_def)
  have tgt: "calculateTargetPosition (forward_1\<lparr>params := [(''distance'', 3)]\<rparr>) \<lparr>x = 0, y = 0, z = 0\<rparr>
     = \<lparr>x = 0, y = 0, z = - 3\<rparr>"
    by (simp add: calculateTargetPosition_def forward_1_def js_or_def)
  have moves: "\<lparr>x = 0, y = 0, z = - 3\<rparr> \<noteq> \<lparr>x = 0, y = 0, z = 0 :: real\<rparr>" by simp
  have total: "\<forall>p w. \<exists>w'. onPositionUpdate position_callbacks p w = Inr w'"
    by (simp add: position_callbacks_def)
  have ctrl: "abortController at_origin \<noteq> Some True" by (simp add: at_origin_def)
  from executeCommand_interpolates [OF pos tgt moves total ctrl,
        of "\<lparr>animationDuration = 1000, animationSteps = 4\<rparr>" "\<lambda>k. if k = 0 then [CallAbort] else []"]
  obtain s' where run: "executeCommand \<lparr>animationDuration = 1000, animationSteps = 4\<rparr> position_callbacks
            (\<lambda>k. if k = 0 then [CallAbort] else [])
            (forward_1\<lparr>params := [(''distance'', 3)]\<rparr>) at_origin = (Inr (), s')"
    and tr: "position_updates (trace s') =
             position_updates (trace at_origin) @
             map (\<lambda>i. \<lparr>x = 0 + real i * (0 - 0) / real (4::nat),
                        y = 0 + real i * (0 - 0) / real (4::nat),
                        z = 0 + real i * (- 3 - 0) / real (4::nat)\<rparr>)
               [1..<Suc 4] @
             [\<lparr>x = 0, y = 0, z = - 3\<rparr>]"
    by auto
  have "[1..<Suc 4] = [1, 2, 3, 4]" by (simp add: upt_rec)
  then have "position_updates (trace s') =
            [\<lparr>x = 0, y = 0, z = - (3 / 4)\<rparr>, \<lparr>x = 0, y = 0, z = - (3 / 2)\<rparr>,
             \<lparr>x = 0, y = 0, z = - (9 / 4)\<rparr>, \<lparr>x = 0, y = 0, z = - 3\<rparr>,
             \<lparr>x = 0, y = 0, z = - 3\<rparr>]"
    using tr by (simp add: at_origin_def)
  with run pos tgt total ctrl show ?thesis by simp
qed

subsection \<open>The busy flag and the empty queue\<close>















text \<open>\<^verbatim>\<open>abort()\<close> is what clears the flag while a run is suspended.\<close>

lemma abort_clears_flag: "\<not> isExecuting (abort s)"
  by (simp add: abort_def Let_def)




text \<open>
  The run of \<^verbatim>\<open>executeCommands\<close> on the two queued commands, with the execution stopped
  during the first delay, passes through the three states named above: its \<^verbatim>\<open>try\<close> block
  starts in \<open>first_run_started\<close>, the first turn of the loop executes the first command
  from \<open>first_run_at_first_delay\<close>, and the first step of the interpolation emits its
  position from \<open>stopped_while_suspended\<close>.
\<close>

lemma first_run_reaches_its_first_delay:
  "executeCommands DEFAULT_CONFIG stop_during_first_delay two_queued =
     queue_finally (queue_catch (store_callbacks (world two_queued))
       (queue_try DEFAULT_CONFIG (store_callbacks (world two_queued))
          (store_queue_callbacks (world two_queued)) stop_during_first_delay
          [forward_1, right_2] first_run_started)) \<and>
   queue_turn DEFAULT_CONFIG (store_callbacks (world two_queued))
       (store_queue_callbacks (world two_queued)) stop_during_first_delay forward_1 0 first_run_started =
     try_command DEFAULT_CONFIG (store_callbacks (world two_queued))
       (store_queue_callbacks (world two_queued)) stop_during_first_delay forward_1 0
       first_run_at_first_delay \<and>
   animation_step DEFAULT_CONFIG (store_callbacks (world two_queued)) stop_during_first_delay
       \<lparr>x = 0, y = 0, z = 0\<rparr> (0, 0, - (1 / 20)) 1 first_run_at_first_delay =
     invoke (PositionUpdate \<lparr>x = 0, y = 0, z = - (1 / 20)\<rparr>)
       (onPositionUpdate (store_callbacks (world two_queued)) \<lparr>x = 0, y = 0, z = - (1 / 20)\<rparr>)
       stopped_while_suspended"
  by code_simp


text \<open>
  Claim C10. \<^verbatim>\<open>executeQueue\<close> with an empty command list returns at once and changes
  nothing: the busy flag and the abort handle are as before and the trace is as before, so
  neither \<^verbatim>\<open>busy\<close> nor anything else was reported. A run of a non-empty list that starts
  (the busy flag is clear) reports \<^verbatim>\<open>busy\<close> first, to the \<^verbatim>\<open>onStatusChange\<close> callback it
  was given.
\<close>

theorem executeQueue_empty_is_noop:
  "executeQueue cfg cbs lc env [] s = (Inr (), s) \<and>
   (cmds \<noteq> [] \<and> \<not> isExecuting s \<and> onStatusChange cbs = Some f \<longrightarrow>
      (\<exists>es. trace (snd (executeQueue cfg cbs lc env cmds s)) = trace s @ StatusChange busy # es))"
proof (intro conjI impI)
  show "executeQueue cfg cbs lc env [] s = (Inr (), s)"
    by (simp add: executeQueue_def)
next
  assume a: "cmds \<noteq> [] \<and> \<not> isExecuting s \<and> onStatusChange cbs = Some f"
  define s0 where "s0 = s\<lparr>isExecuting := True, abortController := Some False\<rparr>"
  define r where "r = invoke (StatusChange busy) (f busy) s0"
  have run: "executeQueue cfg cbs lc env cmds s =
      and_then r (\<lambda>u s1. queue_finally (queue_catch cbs (queue_try cfg cbs lc env cmds s1)))"
    using a by (simp add: executeQueue_def invoke_opt_def r_def s0_def)
  obtain res s1 where r: "r = (res, s1)" by (cases r) auto
  then have t1: "trace s1 = trace s @ [StatusChange busy]"
    by (auto simp: r_def s0_def invoke_def Let_def split: sum.splits)
  show "\<exists>es. trace (snd (executeQueue cfg cbs lc env cmds s)) = trace s @ StatusChange busy # es"
  proof (cases res)
    case (Inl e)
    then show ?thesis using run r t1 by (simp add: and_then_def)
  next
    case (Inr u)
    have "prefix (trace s1)
            (trace (snd (queue_finally (queue_catch cbs (queue_try cfg cbs lc env cmds s1)))))"
      by (rule queue_body_prefix)
    then obtain es where
      "trace (snd (queue_finally (queue_catch cbs (queue_try cfg cbs lc env cmds s1)))) = trace s1 @ es"
      by (auto simp: prefix_def)
    then show ?thesis using run r Inr t1 by (simp add: and_then_def)
  qed
qed

theorem executeQueue_empty_is_noop_witness:
  "[forward_1, right_2] \<noteq> [] \<and> \<not> isExecuting two_queued \<and>
   onStatusChange (store_callbacks (world two_queued)) = Some (\<lambda>st w. Inr (setRobotStatus st w)) \<and>
   executeQueue DEFAULT_CONFIG (store_callbacks (world two_queued))
     (store_queue_callbacks (world two_queued)) quiet [] two_queued = (Inr (), two_queued) \<and>
   (\<exists>es. trace (snd (executeQueue DEFAULT_CONFIG (store_callbacks (world two_queued))
                      (store_queue_callbacks (world two_queued)) quiet [forward_1, right_2] two_queued))
          = StatusChange busy # es)"
proof -
  have a: "\<not> isExecuting two_queued" "trace two_queued = []"
    by (simp_all add: two_queued_def)
  have b: "onStatusChange (store_callbacks (world two_queued)) = Some (\<lambda>st w. Inr (setRobotStatus st w))"
    by (simp add: store_callbacks_def)
  show ?thesis
    using executeQueue_empty_is_noop
      [of DEFAULT_CONFIG "store_callbacks (world two_queued)" "store_queue_callbacks (world two_queued)"
          quiet two_queued "[forward_1, right_2]" "\<lambda>st w. Inr (setRobotStatus st w)"]
      a b
    by simp
qed

subsection \<open>Failures and cancellation in a queue run\<close>

text \<open>
  A command whose execution throws an error other than the cancellation error is
  reported to \<^verbatim>\<open>onCommandError\<close> with the command, its index and the error, and the loop
  continues.
\<close>

lemma try_command_reports_failure:
  assumes "executeCommand cfg cbs env cmd s = (Inl e, s1)"
    and "\<not> is_abort_error e"
    and "onCommandError lc = Some h"
    and "h cmd i e (world s1) = Inr w"
  shows "try_command cfg cbs lc env cmd i s =
           (Inr Continue, s1\<lparr>trace := trace s1 @ [CommandError cmd i e], world := w\<rparr>)"
  using assms by (simp add: try_command_def and_then_def invoke_opt_def invoke_def Let_def)

text \<open>
  The cancellation error, when \<^verbatim>\<open>executeCommand\<close> does throw it, ends the loop: it is not
  reported and no later command is started. So does a controller that is seen aborted at
  the head of a turn.
\<close>

lemma try_command_breaks_on_cancellation:
  assumes "executeCommand cfg cbs env cmd s = (Inl e, s1)" and "is_abort_error e"
  shows "try_command cfg cbs lc env cmd i s = (Inr Break, s1)"
  using assms by (simp add: try_command_def and_then_def)

lemma queue_loop_breaks:
  assumes "queue_turn cfg cbs lc env cmd i s = (Inr Break, s1)"
  shows "queue_loop cfg cbs lc env (cmd # rest) i s = (Inr (), s1)"
  using assms by simp

lemma queue_turn_sees_aborted:
  "abortController s = Some True \<Longrightarrow> queue_turn cfg cbs lc env cmd i s = (Inr Break, s)"
  by (simp add: queue_turn_def)

text \<open>
  But the executor itself never throws the cancellation error, whatever the environment
  does: unless a callback throws an error with the cancellation message, the inner
  \<^verbatim>\<open>try\<close> of a turn never breaks the loop.
\<close>

lemma cancellation_branch_is_dead:
  assumes ctrl: "never_aborted s"
    and upd: "\<forall>p w e. onPositionUpdate cbs p w = Inl e \<longrightarrow> \<not> is_abort_error e"
    and get: "\<forall>w e. getPosition cbs w = Inl e \<longrightarrow> \<not> is_abort_error e"
    and cmpl: "\<forall>f w e. onCommandComplete lc = Some f \<longrightarrow> f cmd i w = Inl e \<longrightarrow> \<not> is_abort_error e"
  shows "fst (try_command cfg cbs lc env cmd i s) \<noteq> Inr Break"
proof -
  obtain res s1 where run: "executeCommand cfg cbs env cmd s = (res, s1)"
    by (cases "executeCommand cfg cbs env cmd s") auto
  show ?thesis
  proof (cases res)
    case (Inl e)
    then have "getPosition cbs (world s) = Inl e \<or> (\<exists>p w. onPositionUpdate cbs p w = Inl e)"
      using executeCommand_error [OF ctrl] run by blast
    then have "\<not> is_abort_error e" using upd get by blast
    then show ?thesis
      using run Inl
      by (cases "invoke_opt (CommandError cmd i e) (map_option (\<lambda>f. f cmd i e) (onCommandError lc)) s1")
         (auto simp: try_command_def and_then_def split: sum.splits)
  next
    case (Inr u)
    show ?thesis
    proof (cases "onCommandComplete lc")
      case None
      then show ?thesis using run Inr by (simp add: try_command_def and_then_def invoke_opt_def)
    next
      case (Some f)
      show ?thesis
      proof (cases "f cmd i (world s1)")
        case (Inl e)
        then have "\<not> is_abort_error e" using cmpl Some by blast
        then show ?thesis
          using run Inr Some Inl
          by (cases "invoke_opt (CommandError cmd i e) (map_option (\<lambda>f. f cmd i e) (onCommandError lc))
                       (s1\<lparr>trace := trace s1 @ [CommandComplete cmd i]\<rparr>)")
             (auto simp: try_command_def and_then_def invoke_opt_def invoke_def Let_def split: sum.splits)
      next
        case (Inr w)
        then show ?thesis
          using run \<open>res = Inr u\<close> Some
          by (simp add: try_command_def and_then_def invoke_opt_def invoke_def Let_def)
      qed
    qed
  qed
qed

text \<open>The store's \<^verbatim>\<open>onCommandError\<close> marks the command \<^verbatim>\<open>failed\<close>, with the message.\<close>

lemma store_onCommandError_marks_failed:
  "\<exists>h. onCommandError (store_queue_callbacks st) = Some h \<and>
       (\<exists>w'. h cmd i e w = Inr w' \<and>
          store_error w' = message e \<and>
          commands w' =
            map (\<lambda>c. if command_id c = command_id cmd then c\<lparr>status := failed, error := message e\<rparr> else c)
              (commands w))"
  by (simp add: store_queue_callbacks_def setError_def updateCommandStatus_def)

text \<open>
  An example: the first of two commands fails at its first position update; the error
  is reported and the second command runs to its end.
\<close>

lemma failed_command_does_not_stop_the_queue:
  "trace (snd (executeQueue \<lparr>animationDuration = 1000, animationSteps = 2\<rparr> fragile_callbacks
                 idle_queue_callbacks quiet [forward_1, right_2] at_origin)) =
     [CommandStart forward_1 0, Delay 500, PositionUpdate \<lparr>x = 0, y = 0, z = - (1 / 2)\<rparr>,
      CommandError forward_1 0 (Error ''below ground''),
      CommandStart right_2 1, Delay 500, PositionUpdate \<lparr>x = 1, y = 0, z = 0\<rparr>,
      Delay 500, PositionUpdate \<lparr>x = 2, y = 0, z = 0\<rparr>, PositionUpdate \<lparr>x = 2, y = 0, z = 0\<rparr>,
      CommandComplete right_2 1]"
  by code_simp

text \<open>What \<^verbatim>\<open>stopExecution\<close> does is what the environment of the example below does.\<close>

lemma stop_actions_are_stopExecution: "fold apply_env stop_actions s = stopExecution s"
  by (simp add: stop_actions_def stopExecution_def Let_def)

text \<open>
  Claim C4, where the code departs from it. Two commands are queued, \<open>forward\<close> and
  \<open>right\<close>, and the user stops the execution (\<^verbatim>\<open>stopExecution\<close>, which calls \<^verbatim>\<open>abort()\<close>)
  while the executor awaits the first delay of the first command. \<^verbatim>\<open>abort()\<close> sets the
  handle to \<^verbatim>\<open>null\<close>, so the check in the interpolation loop
  (\<^verbatim>\<open>this.abortController?.signal.aborted\<close>) never sees the cancellation: the run goes on to
  emit all 20 interpolated positions and the target, reports the command complete and
  marks it \<^verbatim>\<open>completed\<close>. The check at the head of the queue loop then reads
  \<^verbatim>\<open>signal\<close> of \<^verbatim>\<open>null\<close>, which throws; the outer \<^verbatim>\<open>catch\<close> reports the status
  \<^verbatim>\<open>error\<close>. The second command is never started.
\<close>

theorem abort_lets_the_command_finish:
  "fst (executeCommands DEFAULT_CONFIG stop_during_first_delay two_queued) = Inr () \<and>
   take 4 (trace (snd (executeCommands DEFAULT_CONFIG stop_during_first_delay two_queued))) =
     [StatusChange busy, CommandStart forward_1 0, ActionChange (Some ''forward 1''), Delay 50] \<and>
   length (position_updates
     (drop 4 (trace (snd (executeCommands DEFAULT_CONFIG stop_during_first_delay two_queued))))) = 21 \<and>
   drop 43 (trace (snd (executeCommands DEFAULT_CONFIG stop_during_first_delay two_queued))) =
     [PositionUpdate \<lparr>x = 0, y = 0, z = - 1\<rparr>, CommandComplete forward_1 0,
      StatusChange error_status] \<and>
   CommandStart right_2 1 \<notin>
     set (trace (snd (executeCommands DEFAULT_CONFIG stop_during_first_delay two_queued))) \<and>
   map status (commands (world (snd (executeCommands DEFAULT_CONFIG stop_during_first_delay two_queued))))
     = [completed, pending] \<and>
   position (world (snd (executeCommands DEFAULT_CONFIG stop_during_first_delay two_queued)))
     = \<lparr>x = 0, y = 0, z = - 1\<rparr> \<and>
   robotStatus (world (snd (executeCommands DEFAULT_CONFIG stop_during_first_delay two_queued)))
     = error_status"
  by code_simp

section \<open>Properties of the command store\<close>

lemma js_slice_last_100: "js_slice_from (- 100) xs = drop (length xs - 100) xs"
proof -
  have "nat (max (int (length xs) + - 100) 0) = length xs - 100" by linarith
  then show ?thesis by (simp add: js_slice_from_def Let_def)
qed

lemma slice_length: "length (js_slice_from (- 100) xs) \<le> 100"
  by (simp add: js_slice_last_100)

lemma slice_short: "length xs \<le> 100 \<Longrightarrow> js_slice_from (- 100) xs = xs"
  by (simp add: js_slice_last_100)

lemma drop_last_append:
  "drop (length (drop (length xs - n) xs @ ys) - n) (drop (length xs - n) xs @ ys) =
   drop (length (xs @ ys) - n) (xs @ ys)"
proof (cases "length xs \<le> n")
  case True
  then show ?thesis by simp
next
  case False
  then have "length (drop (length xs - n) xs) = n" by simp
  then show ?thesis using False by (simp add: add.commute)
qed

lemma slice_slice:
  "js_slice_from (- 100) (js_slice_from (- 100) xs @ ys) = js_slice_from (- 100) (xs @ ys)"
  unfolding js_slice_last_100 by (rule drop_last_append)

lemma enqueue_history: "history (enqueue c a) = js_slice_from (- 100) (history a @ enqueued c)"
  by (cases c) (simp_all add: addCommand_def addCommands_def)

lemma enqueue_commands: "commands (enqueue c a) = commands a @ map with_pending (enqueued c)"
  by (cases c) (simp_all add: addCommand_def addCommands_def)

lemma enqueue_all_commands:
  "commands (enqueue_all calls a) = commands a @ map with_pending (concat (map enqueued calls))"
  unfolding enqueue_all_def
  by (induction calls arbitrary: a) (simp_all add: enqueue_commands)

lemma enqueue_all_history:
  "length (history a) \<le> 100 \<Longrightarrow>
   history (fold enqueue calls a) = js_slice_from (- 100) (history a @ concat (map enqueued calls))"
proof (induction calls arbitrary: a)
  case Nil
  then show ?case by (simp add: slice_short)
next
  case (Cons c calls)
  have "length (history (enqueue c a)) \<le> 100"
    by (simp add: enqueue_history slice_length)
  then have "history (fold enqueue calls (enqueue c a)) =
      js_slice_from (- 100)
        (js_slice_from (- 100) (history a @ enqueued c) @ concat (map enqueued calls))"
    using Cons.IH [of "enqueue c a"] by (simp add: enqueue_history)
  then show ?case by (simp add: slice_slice)
qed

lemma enqueue_all_history_initial:
  "history (enqueue_all calls initial_app) = js_slice_from (- 100) (concat (map enqueued calls))"
  using enqueue_all_history [of initial_app calls] by (simp add: enqueue_all_def initial_app_def)

lemma enqueued_singles: "concat (map enqueued (map (\<lambda>i. Single (f i)) ns)) = map f ns"
  by (induction ns) simp_all

lemma truncate_with_pending: "Command.truncate (with_pending cmd) = cmd"
  by (simp add: with_pending_def Command.extend_def Command.truncate_def)

lemma status_with_pending: "status (with_pending cmd) = pending"
  by (simp add: with_pending_def Command.extend_def)

text \<open>A change of status keeps the commands and their order.\<close>

lemma updateCommandStatus_keeps_order:
  "map Command.truncate (commands (updateCommandStatus ident st err a)) =
   map Command.truncate (commands a)"
  by (simp add: updateCommandStatus_def comp_def Command.truncate_def)

text \<open>
  Claim C7. After any sequence of calls of \<^verbatim>\<open>addCommand\<close> and \<^verbatim>\<open>addCommands\<close>, from any
  state of the store, the command list is the list before, followed by one record for
  every command enqueued, in the order of the calls (and, within a batch, of the batch);
  each of these records carries its command and has the status \<^verbatim>\<open>pending\<close>.
\<close>

theorem enqueue_keeps_call_order:
  "take (length (commands a)) (commands (enqueue_all calls a)) = commands a \<and>
   map Command.truncate (drop (length (commands a)) (commands (enqueue_all calls a)))
     = concat (map enqueued calls) \<and>
   map status (drop (length (commands a)) (commands (enqueue_all calls a)))
     = replicate (length (concat (map enqueued calls))) pending"
proof -
  have "map (\<lambda>c. Command.truncate (with_pending c)) cs = cs" for cs :: "Command list"
    by (induction cs) (simp_all add: truncate_with_pending)
  moreover have "map (\<lambda>c. status (with_pending c)) cs = replicate (length cs) pending"
    for cs :: "Command list"
    by (induction cs) (simp_all add: status_with_pending)
  ultimately show ?thesis
    by (simp add: enqueue_all_commands comp_def)
qed

text \<open>
  Claim C8. The history of the store, which starts empty, is at every moment the last 100
  of the commands enqueued so far, in the order they were enqueued, so it has at most 100
  entries and the oldest go first. After 105 single commands \<open>f 0, \<dots>, f 104\<close> it holds
  exactly the 100 most recent, \<open>f 5, \<dots>, f 104\<close>.
\<close>

theorem history_keeps_last_100:
  "history (enqueue_all calls initial_app) =
     drop (length (concat (map enqueued calls)) - 100) (concat (map enqueued calls)) \<and>
   length (history (enqueue_all calls initial_app)) \<le> 100 \<and>
   history (enqueue c a) = drop (length (history a @ enqueued c) - 100) (history a @ enqueued c) \<and>
   length (history (enqueue c a)) \<le> 100 \<and>
   history (enqueue_all (map (\<lambda>i. Single (f i)) [0..<105]) initial_app) = map f [5..<105]"
proof (intro conjI)
  show "history (enqueue_all calls initial_app) =
     drop (length (concat (map enqueued calls)) - 100) (concat (map enqueued calls))"
    unfolding enqueue_all_history_initial js_slice_last_100 by (rule refl)
  show "length (history (enqueue_all calls initial_app)) \<le> 100"
    unfolding enqueue_all_history_initial by (rule slice_length)
  show "history (enqueue c a) = drop (length (history a @ enqueued c) - 100) (history a @ enqueued c)"
    unfolding enqueue_history js_slice_last_100 by (rule refl)
  show "length (history (enqueue c a)) \<le> 100"
    unfolding enqueue_history by (rule slice_length)
  show "history (enqueue_all (map (\<lambda>i. Single (f i)) [0..<105]) initial_app) = map f [5..<105]"
    unfolding enqueue_all_history_initial enqueued_singles js_slice_last_100
    by (simp add: drop_map)
qed

section \<open>Properties of the WebSocket service\<close>

lemma stopHeartbeat_fields:
  "reconnectAttempts (stopHeartbeat s) = reconnectAttempts s"
  "manualDisconnect (stopHeartbeat s) = manualDisconnect s"
  "reconnect_timers (stopHeartbeat s) = reconnect_timers s"
  "promises (stopHeartbeat s) = promises s"
  "sockets (stopHeartbeat s) = sockets s"
  "isConnecting (stopHeartbeat s) = isConnecting s"
  "ws (stopHeartbeat s) = ws s"
  by (simp_all add: stopHeartbeat_def)

lemma settle_fields:
  "reconnectAttempts (settle p v s) = reconnectAttempts s"
  "manualDisconnect (settle p v s) = manualDisconnect s"
  "reconnect_timers (settle p v s) = reconnect_timers s"
  "sockets (settle p v s) = sockets s"
  "isConnecting (settle p v s) = isConnecting s"
  "ws (settle p v s) = ws s"
  "length (promises (settle p v s)) = length (promises s)"
  by (simp_all add: settle_def)

lemma onopen_fields:
  "reconnectAttempts (onopen k s) = 0"
  "manualDisconnect (onopen k s) = manualDisconnect s"
  "reconnect_timers (onopen k s) = reconnect_timers s"
  by (simp_all add: onopen_def settle_fields startHeartbeat_def stopHeartbeat_fields)

lemma connect_fields:
  "reconnectAttempts (snd (connect c s)) = reconnectAttempts s"
  "manualDisconnect (snd (connect c s)) = False"
  "reconnect_timers (snd (connect c s)) = reconnect_timers s"
  by (simp_all add: connect_def Let_def settle_fields split: option.split)

lemma onclose_schedules:
  assumes "\<not> manualDisconnect s" and "reconnectAttempts s < 3"
  shows "reconnect_timers (onclose s) = reconnect_timers s @ [reconnect_delay (reconnectAttempts s)]"
    and "reconnectAttempts (onclose s) = Suc (reconnectAttempts s)"
    and "manualDisconnect (onclose s) = False"
  using assms
  by (simp_all add: onclose_def Let_def reconnect_def maxReconnectAttempts_def stopHeartbeat_fields)

lemma onclose_exhausted:
  assumes "reconnectAttempts s \<ge> 3"
  shows "reconnect_timers (onclose s) = reconnect_timers s"
  using assms
  by (simp add: onclose_def Let_def reconnect_def maxReconnectAttempts_def stopHeartbeat_fields)

lemma onclose_manual:
  assumes "manualDisconnect s"
  shows "reconnect_timers (onclose s) = reconnect_timers s"
  using assms
  by (simp add: onclose_def Let_def stopHeartbeat_fields)

lemma disconnect_manual: "manualDisconnect (disconnect s)" "reconnect_timers (disconnect s) = reconnect_timers s"
  by (simp_all add: disconnect_def Let_def stopHeartbeat_fields split: option.split)

lemma delays: "reconnect_delay 0 = 1000" "reconnect_delay (Suc 0) = 2000" "reconnect_delay 2 = 5000"
  by (simp_all add: reconnect_delay_def WS_RECONNECT_DELAY_def)

text \<open>
  Claim C5. An open resets the attempt counter. After it, three closes in a row that are
  not manual, each followed by the reconnect timer calling \<^verbatim>\<open>connect\<close>, set timers of 1000,
  2000 and 5000 milliseconds, in this order; the counter is then at its maximum 3 and a
  fourth close sets no timer. \<^verbatim>\<open>disconnect\<close> sets the manual flag, and a close that finds
  the flag set sets no timer.
\<close>

theorem reconnect_schedule:
  assumes "\<not> manualDisconnect s"
  shows "let s0 = onopen k s;
             s1 = onclose s0;
             s2 = onclose (snd (connect c1 s1));
             s3 = onclose (snd (connect c2 s2));
             s4 = onclose (snd (connect c3 s3))
         in reconnectAttempts s0 = 0 \<and>
            reconnect_timers s1 = reconnect_timers s @ [1000] \<and>
            reconnect_timers s2 = reconnect_timers s @ [1000, 2000] \<and>
            reconnect_timers s3 = reconnect_timers s @ [1000, 2000, 5000] \<and>
            reconnectAttempts s3 = maxReconnectAttempts \<and>
            reconnect_timers s4 = reconnect_timers s3 \<and>
            manualDisconnect (disconnect t) \<and>
            reconnect_timers (onclose (disconnect t)) = reconnect_timers t"
proof -
  define s0 where "s0 = onopen k s"
  define s1 where "s1 = onclose s0"
  define s2 where "s2 = onclose (snd (connect c1 s1))"
  define s3 where "s3 = onclose (snd (connect c2 s2))"
  define s4 where "s4 = onclose (snd (connect c3 s3))"
  have a0: "reconnectAttempts s0 = 0" "\<not> manualDisconnect s0" "reconnect_timers s0 = reconnect_timers s"
    using assms by (simp_all add: s0_def onopen_fields)
  have a1: "reconnect_timers s1 = reconnect_timers s @ [1000]" "reconnectAttempts s1 = 1"
    unfolding s1_def using onclose_schedules [of s0] a0 by (simp_all add: delays)
  have a2: "reconnect_timers s2 = reconnect_timers s @ [1000, 2000]" "reconnectAttempts s2 = 2"
    unfolding s2_def using onclose_schedules [of "snd (connect c1 s1)"] a1
    by (simp_all add: connect_fields delays)
  have a3: "reconnect_timers s3 = reconnect_timers s @ [1000, 2000, 5000]" "reconnectAttempts s3 = 3"
    unfolding s3_def using onclose_schedules [of "snd (connect c2 s2)"] a2
    by (simp_all add: connect_fields delays)
  have a4: "reconnect_timers s4 = reconnect_timers s3"
    unfolding s4_def using onclose_exhausted [of "snd (connect c3 s3)"] a3
    by (simp add: connect_fields)
  have m: "manualDisconnect (disconnect t)" "reconnect_timers (onclose (disconnect t)) = reconnect_timers t"
    using onclose_manual [of "disconnect t"] by (simp_all add: disconnect_manual)
  show ?thesis
    unfolding Let_def s0_def [symmetric] s1_def [symmetric] s2_def [symmetric] s3_def [symmetric] s4_def [symmetric]
    using a0 a1 a2 a3 a4 m by (simp add: maxReconnectAttempts_def)
qed

text \<open>
  The witness: the service connects, the socket opens and closes, and each of the three
  reconnect attempts ends in a close.
\<close>

theorem reconnect_schedule_witness:
  "\<not> manualDisconnect (snd (connect None initial_service)) \<and>
   reconnect_timers
     (onclose (snd (connect None (onclose (snd (connect None
        (onclose (onopen 0 (snd (connect None initial_service))))))))))
     = [1000, 2000, 5000] \<and>
   reconnect_timers
     (onclose (snd (connect None (onclose (snd (connect None (onclose (snd (connect None
        (onclose (onopen 0 (snd (connect None initial_service)))))))))))))
     = [1000, 2000, 5000] \<and>
   reconnect_timers
     (ws_run [Connect None, SocketOpen 0, SocketClose 0, Connect None, SocketClose 1,
              Connect None, SocketClose 2, Connect None, SocketClose 3] initial_service)
     = [1000, 2000, 5000]"
proof -
  have m: "\<not> manualDisconnect (snd (connect None initial_service))"
    by (simp add: connect_fields)
  have t: "reconnect_timers (snd (connect None initial_service)) = []"
    by (simp add: connect_fields initial_service_def)
  have run: "reconnect_timers
     (ws_run [Connect None, SocketOpen 0, SocketClose 0, Connect None, SocketClose 1,
              Connect None, SocketClose 2, Connect None, SocketClose 3] initial_service)
     = [1000, 2000, 5000]"
    by code_simp
  show ?thesis
    using reconnect_schedule [OF m, of 0 None None None initial_service] m t run
    by (simp add: Let_def)
qed

lemma map_resolves_update:
  "k < length xs \<Longrightarrow> map resolves (xs[k := (xs ! k)\<lparr>readyState := r\<rparr>]) = map resolves xs"
  by (simp add: map_update list_update_same_conv)

lemma set_resolves_update:
  "k < length xs \<Longrightarrow> resolves ` set (xs[k := (xs ! k)\<lparr>readyState := r\<rparr>]) = resolves ` set xs"
  using map_resolves_update [of k xs r] by (metis set_map)

lemma isReady_more_promises [simp]:
  "isReady (s\<lparr>promises := ps, manualDisconnect := m\<rparr>) = isReady s"
  by (simp add: isReady_def split: option.split)

lemma stopHeartbeat_keeps:
  "promises (stopHeartbeat s) = promises s" "sockets (stopHeartbeat s) = sockets s"
  by (simp_all add: stopHeartbeat_def)

lemma settle_sockets: "sockets (settle p v s) = sockets s"
  by (simp add: settle_def)

lemma settle_length: "length (promises (settle p v s)) = length (promises s)"
  by (simp add: settle_def)

lemma settle_other: "q \<noteq> p \<Longrightarrow> promises (settle q v s) ! p = promises s ! p"
  by (simp add: settle_def)

lemma handlers_ok_settle: "handlers_ok s \<Longrightarrow> handlers_ok (settle q v s)"
  by (simp add: handlers_ok_def settle_sockets settle_length)

lemma unreferenced_settle: "q \<noteq> p \<Longrightarrow> unreferenced p s \<Longrightarrow> unreferenced p (settle q v s)"
  by (simp add: unreferenced_def settle_sockets settle_length settle_other)

lemma connect_keeps:
  assumes "handlers_ok s" and "unreferenced p s"
  shows "handlers_ok (snd (connect c s)) \<and> unreferenced p (snd (connect c s))"
proof -
  define s1 where "s1 = s\<lparr>promises := promises s @ [Pending], manualDisconnect := False\<rparr>"
  have ok1: "handlers_ok s1"
    using assms(1) by (auto simp: handlers_ok_def s1_def list_all_iff)
  have un1: "unreferenced p s1"
    using assms(2) by (simp add: unreferenced_def s1_def nth_append)
  have ne: "length (promises s) \<noteq> p" using assms(2) by (simp add: unreferenced_def)
  have len1: "length (promises s1) = Suc (length (promises s))" by (simp add: s1_def)
  show ?thesis
  proof (cases "isReady s1")
    case True
    then show ?thesis
      using ok1 un1 ne
      by (simp add: connect_def Let_def s1_def [symmetric] handlers_ok_settle unreferenced_settle)
  next
    case notReady: False
    show ?thesis
    proof (cases "isConnecting s1")
      case True
      then show ?thesis using notReady ok1 un1 by (simp add: connect_def Let_def s1_def [symmetric])
    next
      case False
      show ?thesis
      proof (cases c)
        case (Some e)
        have "handlers_ok (s1\<lparr>isConnecting := False\<rparr>)" "unreferenced p (s1\<lparr>isConnecting := False\<rparr>)"
          using ok1 un1 by (simp_all add: handlers_ok_def unreferenced_def)
        then show ?thesis
          using notReady False Some ne
          by (simp add: connect_def Let_def s1_def [symmetric] handlers_ok_settle unreferenced_settle)
      next
        case None
        then show ?thesis
          using notReady False ok1 un1 ne len1
          by (simp add: connect_def Let_def s1_def [symmetric] handlers_ok_def unreferenced_def)
      qed
    qed
  qed
qed

lemma disconnect_keeps:
  assumes "handlers_ok s" and "unreferenced p s"
  shows "handlers_ok (disconnect s) \<and> unreferenced p (disconnect s)"
  using assms
  by (auto simp: disconnect_def Let_def stopHeartbeat_def handlers_ok_def unreferenced_def
        map_resolves_update set_resolves_update split: option.split)

lemma onopen_keeps:
  assumes "handlers_ok s" and "unreferenced p s" and "k < length (sockets s)"
  shows "handlers_ok (onopen k s) \<and> unreferenced p (onopen k s)"
proof -
  define s1 where "s1 = startHeartbeat (s\<lparr>isConnecting := False, reconnectAttempts := 0\<rparr>)"
  have s1: "promises s1 = promises s" "sockets s1 = sockets s"
    by (simp_all add: s1_def startHeartbeat_def stopHeartbeat_def)
  have ok1: "handlers_ok s1" "unreferenced p s1"
    using assms(1,2) by (simp_all add: handlers_ok_def unreferenced_def s1)
  have "resolves (sockets s ! k) \<in> set (map resolves (sockets s))"
    using assms(3) by simp
  then have "resolves (sockets s ! k) \<noteq> p" using assms(2) by (auto simp: unreferenced_def)
  then show ?thesis
    using ok1 by (simp add: onopen_def s1_def [symmetric] handlers_ok_settle unreferenced_settle)
qed

lemma onclose_keeps:
  assumes "handlers_ok s" and "unreferenced p s"
  shows "handlers_ok (onclose s) \<and> unreferenced p (onclose s)"
  using assms
  by (simp add: onclose_def Let_def reconnect_def stopHeartbeat_def handlers_ok_def unreferenced_def)

lemma ws_step_keeps:
  assumes "handlers_ok s" and "unreferenced p s"
  shows "handlers_ok (ws_step e s) \<and> unreferenced p (ws_step e s)"
proof (cases e)
  case (Connect c)
  then show ?thesis using connect_keeps [OF assms] by simp
next
  case Disconnect
  then show ?thesis using disconnect_keeps [OF assms] by simp
next
  case (SocketOpen k)
  show ?thesis
  proof (cases "k < length (sockets s)")
    case True
    define s1 where "s1 = s\<lparr>sockets := (sockets s)[k := (sockets s ! k)\<lparr>readyState := OPEN\<rparr>]\<rparr>"
    have "handlers_ok s1" "unreferenced p s1" "k < length (sockets s1)"
      using assms True by (simp_all add: s1_def handlers_ok_def unreferenced_def map_resolves_update)
    then show ?thesis using onopen_keeps [of s1 p k] SocketOpen True by (simp add: s1_def)
  next
    case False
    then show ?thesis using assms SocketOpen by simp
  qed
next
  case (SocketError k)
  then show ?thesis using assms by (simp add: onerror_def handlers_ok_def unreferenced_def)
next
  case (SocketClose k)
  show ?thesis
  proof (cases "k < length (sockets s)")
    case True
    define s1 where "s1 = s\<lparr>sockets := (sockets s)[k := (sockets s ! k)\<lparr>readyState := CLOSED\<rparr>]\<rparr>"
    have "handlers_ok s1" "unreferenced p s1"
      using assms True by (simp_all add: s1_def handlers_ok_def unreferenced_def map_resolves_update)
    then show ?thesis using onclose_keeps [of s1 p] SocketClose True by (simp add: s1_def)
  next
    case False
    then show ?thesis using assms SocketClose by simp
  qed
qed

lemma ws_run_keeps:
  assumes "handlers_ok s" and "unreferenced p s"
  shows "handlers_ok (ws_run evs s) \<and> unreferenced p (ws_run evs s)"
  using assms unfolding ws_run_def
proof (induction evs arbitrary: s)
  case Nil
  then show ?case by simp
next
  case (Cons e evs)
  then show ?case using ws_step_keeps [of s p e] by simp
qed

lemma ws_step_handlers_ok: "handlers_ok s \<Longrightarrow> handlers_ok (ws_step e s)"
proof (cases e)
  case (Connect c)
  assume ok: "handlers_ok s"
  define s1 where "s1 = s\<lparr>promises := promises s @ [Pending], manualDisconnect := False\<rparr>"
  have ok1: "handlers_ok s1"
    using ok by (auto simp: handlers_ok_def s1_def list_all_iff)
  have "handlers_ok (s1\<lparr>isConnecting := True, isConnecting := False\<rparr>)"
    using ok1 by (simp add: handlers_ok_def)
  then show ?thesis
    using Connect ok1
    by (auto simp: connect_def Let_def s1_def [symmetric] handlers_ok_settle split: option.split)
       (auto simp: handlers_ok_def s1_def list_all_iff)
next
  case Disconnect
  assume "handlers_ok s"
  then show ?thesis using Disconnect
    by (auto simp: disconnect_def Let_def stopHeartbeat_def handlers_ok_def map_resolves_update split: option.split)
next
  case (SocketOpen k)
  assume "handlers_ok s"
  then show ?thesis using SocketOpen
    by (auto simp: onopen_def handlers_ok_def settle_sockets settle_length startHeartbeat_def stopHeartbeat_def map_resolves_update)
next
  case (SocketError k)
  assume "handlers_ok s"
  then show ?thesis using SocketError by (simp add: onerror_def handlers_ok_def)
next
  case (SocketClose k)
  assume "handlers_ok s"
  then show ?thesis using SocketClose
    by (auto simp: onclose_def Let_def reconnect_def stopHeartbeat_def handlers_ok_def map_resolves_update)
qed

lemma reachable_handlers_ok: "handlers_ok (ws_run evs initial_service)"
proof -
  have "handlers_ok s \<Longrightarrow> handlers_ok (fold ws_step evs s)" for s
    by (induction evs arbitrary: s) (simp_all add: ws_step_handlers_ok)
  moreover have "handlers_ok initial_service" by (simp add: handlers_ok_def initial_service_def)
  ultimately show ?thesis by (simp add: ws_run_def)
qed

text \<open>
  Claim C9. In a state the service can reach, a call of \<^verbatim>\<open>connect\<close> while an earlier
  attempt is in progress (the connecting flag is set and the socket is not open) creates
  no socket and leaves \<^verbatim>\<open>this.ws\<close> as it is, and the promise it returns is pending and
  stays pending whatever happens later: no handler holds its \<^verbatim>\<open>resolve\<close> or
  \<^verbatim>\<open>reject\<close>.
\<close>

theorem connect_while_connecting_never_settles:
  assumes reach: "s = ws_run evs initial_service"
    and connecting: "isConnecting s"
    and not_open: "\<not> isReady s"
  shows "sockets (snd (connect c s)) = sockets s \<and>
         ws (snd (connect c s)) = ws s \<and>
         promises (ws_run later (snd (connect c s))) ! fst (connect c s) = Pending"
proof -
  define s1 where "s1 = s\<lparr>promises := promises s @ [Pending], manualDisconnect := False\<rparr>"
  have nr: "\<not> isReady s1" using not_open by (simp add: s1_def)
  have run: "connect c s = (length (promises s), s1)"
    using nr connecting by (simp add: connect_def Let_def s1_def [symmetric]) (simp add: s1_def)
  have ok: "handlers_ok s" unfolding reach by (rule reachable_handlers_ok)
  then have ok1: "handlers_ok s1" by (auto simp: handlers_ok_def s1_def list_all_iff)
  have "length (promises s) \<notin> set (map resolves (sockets s))"
    using ok by (auto simp: handlers_ok_def list_all_iff)
  then have un1: "unreferenced (length (promises s)) s1"
    by (simp add: unreferenced_def s1_def)
  have "unreferenced (length (promises s)) (ws_run later s1)"
    using ws_run_keeps [OF ok1 un1] by simp
  then show ?thesis by (simp add: run unreferenced_def) (simp add: s1_def)
qed

text \<open>
  The witness: \<^verbatim>\<open>connect\<close> is called twice in a row. The first promise resolves when the
  socket opens; the second is still pending after the socket has opened and closed and a
  later attempt has opened another socket.
\<close>

theorem connect_while_connecting_never_settles_witness:
  "isConnecting (ws_run [Connect None] initial_service) \<and>
   \<not> isReady (ws_run [Connect None] initial_service) \<and>
   promises (ws_run [SocketOpen 0, SocketClose 0, Connect None, SocketOpen 1]
              (snd (connect None (ws_run [Connect None] initial_service)))) ! 1 = Pending \<and>
   promises (ws_run [SocketOpen 0] (snd (connect None (ws_run [Connect None] initial_service)))) ! 0 = Resolved"
proof -
  have s: "ws_run [Connect None] initial_service =
      \<lparr>ws = Some 0, reconnectAttempts = 0, heartbeatInterval = False, isConnecting = True,
       manualDisconnect = False, sockets = [\<lparr>readyState = CONNECTING, resolves = 0\<rparr>],
       promises = [Pending], reconnect_timers = []\<rparr>"
    by (simp add: ws_run_def initial_service_def connect_def isReady_def Let_def split: option.split)
  have c: "isConnecting (ws_run [Connect None] initial_service)" by (simp add: s)
  have r: "\<not> isReady (ws_run [Connect None] initial_service)" by (simp add: s isReady_def)
  have f: "fst (connect None (ws_run [Connect None] initial_service)) = 1"
    unfolding s by (simp add: connect_def Let_def isReady_def)
  have res: "promises (ws_run [SocketOpen 0] (snd (connect None (ws_run [Connect None] initial_service)))) ! 0 = Resolved"
    unfolding s
    by (simp add: ws_run_def connect_def isReady_def Let_def onopen_def settle_def startHeartbeat_def stopHeartbeat_def)
  show ?thesis
    using connect_while_connecting_never_settles [OF refl c r, of None "[SocketOpen 0, SocketClose 0, Connect None, SocketOpen 1]"]
      c r res by (simp add: f)
qed

section \<open>Properties of the streaming voice call\<close>

text \<open>
  Dropping whole groups of four characters from an encoding drops the bytes of these
  groups: what remains is the encoding of the rest.
\<close>

lemma base64_encode_drop:
  "drop (4 * k) (base64_encode bs) = base64_encode (drop (3 * k) bs)"
proof (induction k arbitrary: bs)
  case 0
  then show ?case by simp
next
  case (Suc k)
  have four: "4 * Suc k = Suc (Suc (Suc (Suc (4 * k))))"
    and three: "3 * Suc k = Suc (Suc (Suc (3 * k)))"
    by simp_all
  show ?case
  proof (cases bs rule: base64_encode.cases)
    case (4 a b c rest)
    then show ?thesis using Suc.IH [of rest] unfolding four three by simp
  qed (simp_all add: four three)
qed

lemma base64_encode_empty: "base64_encode bs = [] \<longleftrightarrow> bs = []"
  by (cases bs rule: base64_encode.cases) simp_all

lemma ceiling_thirds: "\<lceil>real n / 3\<rceil> = int ((n + 2) div 3)"
proof -
  have "\<lceil>real n / 3\<rceil> = \<lceil>of_int (int n) / (of_int 3 :: real)\<rceil>" by simp
  also have "\<dots> = - (- int n div 3)" by (rule ceiling_divide_eq_div)
  also have "\<dots> = int ((n + 2) div 3)" by (simp add: zdiv_int)
  finally show ?thesis .
qed

lemma slice_from_start: "js_slice_from (int k) xs = drop k xs"
  by (simp add: js_slice_from_def Let_def min_def)

text \<open>
  What a tick sends when the recording has grown: the encoding of the bytes from
  \<open>3 * \<lceil>last / 3\<rceil>\<close> on, where \<open>last\<close> is the number of bytes sent so far. The bytes
  from \<open>last\<close> up to there are not part of it.
\<close>

lemma sendAudioChunk_sends:
  assumes "isInCall s" and "lastAudioPosition s < length bytes"
  shows "sendAudioChunk (Some uri) (Some bytes) s =
           (if 3 * ((lastAudioPosition s + 2) div 3) < length bytes
            then s\<lparr>sent := sent s @
                      [(base64_encode (drop (3 * ((lastAudioPosition s + 2) div 3)) bytes), isFirstChunk s)],
                   lastAudioPosition := length bytes,
                   isFirstChunk := False\<rparr>
            else s)"
proof -
  have "\<lceil>real (lastAudioPosition s) / 3\<rceil> * 4 = int (4 * ((lastAudioPosition s + 2) div 3))"
    by (simp add: ceiling_thirds)
  then have chunk: "js_slice_from (\<lceil>real (lastAudioPosition s) / 3\<rceil> * 4) (base64_encode bytes) =
      base64_encode (drop (3 * ((lastAudioPosition s + 2) div 3)) bytes)"
    by (simp only: slice_from_start base64_encode_drop)
  have "(0 < length (base64_encode (drop (3 * ((lastAudioPosition s + 2) div 3)) bytes))) =
        (3 * ((lastAudioPosition s + 2) div 3) < length bytes)"
    by (simp add: base64_encode_empty not_le)
  then show ?thesis
    using assms by (simp add: sendAudioChunk_def Let_def chunk)
qed

text \<open>
  The marker: of the chunks a call sends, the first is marked as first and no other is.
  The offset moves only when a chunk is sent, and then to the size of the recording.
\<close>

lemma sendAudioChunk_cases:
  "sendAudioChunk uri file s = s \<or>
   (\<exists>chunk bytes. file = Some bytes \<and> chunk \<noteq> [] \<and>
      sendAudioChunk uri file s =
        s\<lparr>sent := sent s @ [(chunk, isFirstChunk s)],
          lastAudioPosition := length bytes,
          isFirstChunk := False\<rparr>)"
  by (auto simp: sendAudioChunk_def Let_def split: option.split)

lemma sendAudioChunk_marker:
  assumes "(isFirstChunk s \<and> sent s = []) \<or>
           (\<not> isFirstChunk s \<and> (\<exists>k. map snd (sent s) = True # replicate k False))"
  shows "(isFirstChunk (sendAudioChunk uri file s) \<and> sent (sendAudioChunk uri file s) = []) \<or>
         (\<not> isFirstChunk (sendAudioChunk uri file s) \<and>
            (\<exists>k. map snd (sent (sendAudioChunk uri file s)) = True # replicate k False))"
proof -
  from sendAudioChunk_cases [of uri "file" s] show ?thesis
  proof (elim disjE exE conjE)
    assume "sendAudioChunk uri file s = s"
    then show ?thesis using assms by simp
  next
    fix chunk bytes
    assume 2: "sendAudioChunk uri file s =
        s\<lparr>sent := sent s @ [(chunk, isFirstChunk s)],
          lastAudioPosition := length bytes,
          isFirstChunk := False\<rparr>"
    show ?thesis
    proof (cases "isFirstChunk s")
      case True
      then have "map snd (sent (sendAudioChunk uri file s)) = True # replicate 0 False"
        using assms 2 by simp
      then have "\<exists>k. map snd (sent (sendAudioChunk uri file s)) = True # replicate k False" ..
      then show ?thesis using 2 by simp
    next
      case False
      then obtain k where "map snd (sent s) = True # replicate k False" using assms by auto
      then have "map snd (sent (sendAudioChunk uri file s)) = True # replicate (Suc k) False"
        using False 2 by (simp add: replicate_append_same)
      then have "\<exists>k. map snd (sent (sendAudioChunk uri file s)) = True # replicate k False" ..
      then show ?thesis using 2 by simp
    qed
  qed
qed

lemma first_chunk_marker:
  assumes "sent s = []"
  shows "map snd (sent (ticks uri files (startCall s))) = [] \<or>
         (\<exists>k. map snd (sent (ticks uri files (startCall s))) = True # replicate k False)"
proof -
  have step: "(isFirstChunk t \<and> sent t = []) \<or>
           (\<not> isFirstChunk t \<and> (\<exists>k. map snd (sent t) = True # replicate k False)) \<Longrightarrow>
        (isFirstChunk (fold (\<lambda>file. sendAudioChunk (Some uri) (Some file)) files t) \<and>
           sent (fold (\<lambda>file. sendAudioChunk (Some uri) (Some file)) files t) = []) \<or>
        (\<not> isFirstChunk (fold (\<lambda>file. sendAudioChunk (Some uri) (Some file)) files t) \<and>
           (\<exists>k. map snd (sent (fold (\<lambda>file. sendAudioChunk (Some uri) (Some file)) files t))
                 = True # replicate k False))" for t
  proof (induction files arbitrary: t)
    case Nil
    then show ?case by simp
  next
    case (Cons recording files)
    show ?case
      using Cons.IH [OF sendAudioChunk_marker [OF Cons.prems, of "Some uri" "Some recording"]] by simp
  qed
  have "isFirstChunk (startCall s) \<and> sent (startCall s) = []"
    using assms by (simp add: startCall_def)
  then show ?thesis using step [of "startCall s"] by (auto simp: ticks_def)
qed

lemma sendAudioChunk_offset:
  "(sent (sendAudioChunk uri file s) = sent s \<and>
      lastAudioPosition (sendAudioChunk uri file s) = lastAudioPosition s) \<or>
   (\<exists>chunk bytes. file = Some bytes \<and> chunk \<noteq> [] \<and>
      sent (sendAudioChunk uri file s) = sent s @ [(chunk, isFirstChunk s)] \<and>
      lastAudioPosition (sendAudioChunk uri file s) = length bytes)"
  by (auto simp: sendAudioChunk_def Let_def split: option.split)

text \<open>
  Claim C6, where the code departs from it. The recording grows from 0 to 10 bytes and
  then to 22 bytes between the ticks of a call. The first tick sends the encoding of the
  bytes \<open>[0, 10)\<close>, marked as the first chunk. The second tick sends the characters of
  the full encoding from the index \<open>\<lceil>10 / 3\<rceil> * 4 = 16\<close> on, not marked: this is the
  encoding of the bytes \<open>[12, 22)\<close>, not of the bytes \<open>[10, 22)\<close>. The sent offset is
  then 22, so the bytes 10 and 11 are never sent.
\<close>

theorem second_chunk_skips_two_bytes:
  "sent (ticks ''recording.wav'' [take 10 recording_22, recording_22] call_started) =
     [(base64_encode (take 10 recording_22), True), (base64_encode (drop 12 recording_22), False)] \<and>
   sent (ticks ''recording.wav'' [take 10 recording_22, recording_22] call_started) =
     [(''AAECAwQFBgcICQ=='', True), (''DA0ODxAREhMUFQ=='', False)] \<and>
   base64_encode (drop 10 recording_22) = ''CgsMDQ4PEBESExQV'' \<and>
   lastAudioPosition (ticks ''recording.wav'' [take 10 recording_22, recording_22] call_started) = 22 \<and>
   sent (ticks ''recording.wav'' [[], take 10 recording_22, take 10 recording_22, recording_22] call_started) =
     [(''AAECAwQFBgcICQ=='', True), (''DA0ODxAREhMUFQ=='', False)]"
  by code_simp

end
